theory Spec2Isabelle
  imports Main "HOL-Library.Multiset" "HOL-Library.Char_ord" "HOL-Library.List_Lexorder"
    "HOL-Library.Product_Lexorder"
begin

section \<open>Data model\<close>

text \<open>
  The rows of the relational store, as \<open>DbManager\<close> reads them into plain data objects
  (\<open>GetCCIs\<close>, \<open>GetCKLChecks\<close>, ... in dbmanager.cpp). Field names are prefixed where two
  classes share a name (\<open>id\<close>, \<open>title\<close>, \<open>description\<close>).
\<close>

text \<open>
  Modelled from the spec: the \<open>Status\<close> enumeration is declared in cklcheck.h, which is not
  among the sources. The code names \<open>Status::NotReviewed\<close>, \<open>Status::Open\<close> and
  \<open>Status::NotAFinding\<close>; the spec lists not-reviewed / open / not-a-finding / not-applicable.
\<close>

datatype Status = NotReviewed | Open | NotAFinding | NotApplicable

record CCI =
  cci_id :: int
  controlId :: int
  cci :: int
  cci_definition :: string
  isImport :: bool
  importCompliance :: string
  importDateTested :: string
  importTestedBy :: string
  importTestResults :: string

text \<open>
  \<open>severityOverride\<close> is kept as the integer that \<open>GetCKLChecks\<close> reads from the column
  (\<open>q.value(6).toInt()\<close>) before it is cast to the \<open>Severity\<close> enumeration.
\<close>

record CKLCheck =
  ckl_id :: int
  assetId :: int
  stigCheckId :: int
  status :: Status
  findingDetails :: string
  comments :: string
  severityOverride :: int
  severityJustification :: string

section \<open>The eMASS Test Result report (workeremassreport.cpp)\<close>

subsection \<open>\<open>QMap<CCI, QList<CKLCheck>>\<close>\<close>

text \<open>
  A \<open>QMap\<close> keeps one entry per key, in key order, and identifies two keys when neither is
  less than the other. The \<open>operator<\<close> of \<open>CCI\<close> is not among the sources, so the model takes
  the projection it compares as a parameter \<open>key\<close>, into a linear order: two CCIs are the
  same key exactly when \<open>key\<close> agrees on them. The map is the list of its entries, sorted by
  \<open>key\<close>.
\<close>

type_synonym QMapCCI = "(CCI \<times> CKLCheck list) list"

definition qmap_contains :: "(CCI \<Rightarrow> 'k) \<Rightarrow> QMapCCI \<Rightarrow> CCI \<Rightarrow> bool" where
  "qmap_contains key m c = list_ex (\<lambda>e. key (fst e) = key c) m"

definition qmap_remove :: "(CCI \<Rightarrow> 'k) \<Rightarrow> QMapCCI \<Rightarrow> CCI \<Rightarrow> QMapCCI" where
  "qmap_remove key m c = filter (\<lambda>e. key (fst e) \<noteq> key c) m"

text \<open>\<open>m[c].append(cc)\<close> on a key that is present.\<close>

definition qmap_append :: "(CCI \<Rightarrow> 'k) \<Rightarrow> QMapCCI \<Rightarrow> CCI \<Rightarrow> CKLCheck \<Rightarrow> QMapCCI" where
  "qmap_append key m c cc = map (\<lambda>e. if key (fst e) = key c then (fst e, snd e @ [cc]) else e) m"

text \<open>\<open>m.insert(c, v)\<close>: the value of a present key is replaced, a new key is put in its place
  in the order.\<close>

definition qmap_insert :: "(CCI \<Rightarrow> 'k::linorder) \<Rightarrow> QMapCCI \<Rightarrow> CCI \<Rightarrow> CKLCheck list \<Rightarrow> QMapCCI" where
  "qmap_insert key m c v =
     (if qmap_contains key m c
      then map (\<lambda>e. if key (fst e) = key c then (fst e, v) else e) m
      else insort_key (\<lambda>e. key (fst e)) (c, v) m)"

subsection \<open>The environment of the job\<close>

text \<open>
  What \<open>WorkerEMASSReport::process\<close> takes from outside the sources:
  \<^item> \<open>key\<close>: the projection that \<open>operator<\<close> of \<open>CCI\<close> compares (see above);
  \<^item> \<open>cciOf\<close>: \<open>cc.GetSTIGCheck().GetCCI()\<close>, the CCI a CKLCheck is mapped to;
  \<^item> \<open>sortChecks\<close>: \<open>std::sort\<close> on a \<open>QList<CKLCheck>\<close> with the \<open>operator<\<close> of \<open>CKLCheck\<close>;
  \<^item> \<open>curDate\<close>: today's date in the format dd-MMM-yyyy;
  \<^item> \<open>envUSER\<close>, \<open>envUSERNAME\<close>: the environment variables read by \<open>qgetenv\<close>;
  \<^item> \<open>isEmassImport\<close>: \<open>db.IsEmassImport()\<close>.
\<close>

record 'k report_env =
  key :: "CCI \<Rightarrow> 'k"
  cciOf :: "CKLCheck \<Rightarrow> CCI"
  sortChecks :: "CKLCheck list \<Rightarrow> CKLCheck list"
  curDate :: string
  envUSER :: string
  envUSERNAME :: string
  isEmassImport :: bool

subsection \<open>Building the lists of failed and passed CCIs (lines 164-191)\<close>

definition classifyCheck ::
  "('k::linorder) report_env \<Rightarrow> QMapCCI \<times> QMapCCI \<Rightarrow> CKLCheck \<Rightarrow> QMapCCI \<times> QMapCCI" where
  "classifyCheck env fp cc =
     (let failedCCIs = fst fp; passedCCIs = snd fp; c = cciOf env cc; s = status cc in
      if s = Open then
        (if qmap_contains (key env) failedCCIs c
           then qmap_append (key env) failedCCIs c cc
           else qmap_insert (key env) failedCCIs c [cc],
         if qmap_contains (key env) passedCCIs c
           then qmap_remove (key env) passedCCIs c
           else passedCCIs)
      else if s = NotAFinding \<and> \<not> qmap_contains (key env) failedCCIs c then
        (failedCCIs,
         if qmap_contains (key env) passedCCIs c
           then qmap_append (key env) passedCCIs c cc
           else qmap_insert (key env) passedCCIs c [cc])
      else (failedCCIs, passedCCIs))"

text \<open>The loop \<open>for (int i = 0; i < numChecks; i++)\<close> over \<open>db.GetCKLChecks()\<close>.\<close>

definition classifyChecks :: "('k::linorder) report_env \<Rightarrow> CKLCheck list \<Rightarrow> QMapCCI \<times> QMapCCI" where
  "classifyChecks env checks = foldl (classifyCheck env) ([], []) checks"

subsection \<open>The rows of the worksheet (lines 206-350)\<close>

text \<open>
  One worksheet row, by column. Columns 0 to 4 (control, control information, AP acronym,
  CCI number, CCI definition) are printed from the CCI alone, through \<open>PrintControl\<close> and
  \<open>Excelify\<close>, which are not among the sources: the row keeps the CCI. Columns 5 and 6 are
  always empty. Column 10 is a text listing the checks, printed through \<open>PrintAsset\<close>,
  \<open>PrintCKLCheck\<close> and \<open>GetSeverity\<close>: the row keeps which heading is used and the sorted
  checks.
\<close>

datatype TestResults = OpenChecks "CKLCheck list" | CompliantChecks "CKLCheck list" | NoResults

record Row =
  row_cci :: CCI
  complianceStatus :: string
  dateTested :: string
  testedBy :: string
  testResults :: TestResults
  latestComplianceStatus :: string
  latestDateTested :: string
  latestTestedBy :: string
  latestTestResults :: string

definition username :: "'k report_env \<Rightarrow> string" where
  "username env =
     (if envUSER env \<noteq> [] then envUSER env
      else if envUSERNAME env \<noteq> [] then envUSERNAME env
      else ''UNKNOWN'')"

definition failedRow :: "'k report_env \<Rightarrow> CCI \<times> CKLCheck list \<Rightarrow> Row" where
  "failedRow env e =
     (let c = fst e in
      \<lparr> row_cci = c,
        complianceStatus = ''Non-Compliant'',
        dateTested = curDate env,
        testedBy = username env,
        testResults = OpenChecks (sortChecks env (snd e)),
        latestComplianceStatus = (if isImport c then importCompliance c else ''''),
        latestDateTested = (if isImport c then importDateTested c else ''''),
        latestTestedBy = (if isImport c then importTestedBy c else ''''),
        latestTestResults = (if isImport c then importTestResults c else '''') \<rparr>)"

definition passedRow :: "'k report_env \<Rightarrow> CCI \<times> CKLCheck list \<Rightarrow> Row" where
  "passedRow env e =
     (let c = fst e in
      \<lparr> row_cci = c,
        complianceStatus = ''Compliant'',
        dateTested = curDate env,
        testedBy = username env,
        testResults = CompliantChecks (sortChecks env (snd e)),
        latestComplianceStatus = (if isImport c then importCompliance c else ''''),
        latestDateTested = (if isImport c then importDateTested c else ''''),
        latestTestedBy = (if isImport c then importTestedBy c else ''''),
        latestTestResults = (if isImport c then importTestResults c else '''') \<rparr>)"

definition oldRow :: "CCI \<Rightarrow> Row" where
  "oldRow c =
     \<lparr> row_cci = c,
       complianceStatus = '''',
       dateTested = '''',
       testedBy = '''',
       testResults = NoResults,
       latestComplianceStatus = (if isImport c then importCompliance c else ''''),
       latestDateTested = (if isImport c then importDateTested c else ''''),
       latestTestedBy = (if isImport c then importTestedBy c else ''''),
       latestTestResults = (if isImport c then importTestResults c else '''') \<rparr>"

text \<open>The third loop skips a CCI of \<open>db.GetCCIs()\<close> with \<open>continue\<close>.\<close>

definition oldResultCCIs :: "'k report_env \<Rightarrow> QMapCCI \<Rightarrow> QMapCCI \<Rightarrow> CCI list \<Rightarrow> CCI list" where
  "oldResultCCIs env failedCCIs passedCCIs ccis =
     filter (\<lambda>c. \<not> (\<not> isImport c \<or> qmap_contains (key env) failedCCIs c
                      \<or> qmap_contains (key env) passedCCIs c)) ccis"

text \<open>
  \<open>WorkerEMASSReport::process\<close>, from the checks (\<open>db.GetCKLChecks()\<close>) and the CCIs
  (\<open>db.GetCCIs()\<close>) to the rows written below the headers, top to bottom.
\<close>

definition reportRows :: "('k::linorder) report_env \<Rightarrow> CKLCheck list \<Rightarrow> CCI list \<Rightarrow> Row list" where
  "reportRows env checks ccis =
     (let fp = classifyChecks env checks; failedCCIs = fst fp; passedCCIs = snd fp in
      map (failedRow env) failedCCIs
      @ map (passedRow env) passedCCIs
      @ map oldRow (oldResultCCIs env failedCCIs passedCCIs ccis))"

text \<open>The warning "New CCI Detected" at the end of the job.\<close>

definition newCCIWarning :: "('k::linorder) report_env \<Rightarrow> CKLCheck list \<Rightarrow> bool" where
  "newCCIWarning env checks =
     (let fp = classifyChecks env checks;
          unimportedCCI = list_ex (\<lambda>e. \<not> isImport (fst e)) (fst fp @ snd fp)
      in unimportedCCI \<and> isEmassImport env)"

subsection \<open>Notions used to state the properties of the report\<close>

text \<open>The keys of a map, as a set and in iteration order.\<close>

definition keysOf :: "(CCI \<Rightarrow> 'k) \<Rightarrow> QMapCCI \<Rightarrow> 'k set" where
  "keysOf k m = set (map (\<lambda>e. k (fst e)) m)"

text \<open>The keys that some Open check, and some NotAFinding check, is mapped to.\<close>

definition openKeys :: "'k report_env \<Rightarrow> CKLCheck list \<Rightarrow> 'k set" where
  "openKeys env checks = {key env (cciOf env cc) | cc. cc \<in> set checks \<and> status cc = Open}"

definition nafKeys :: "'k report_env \<Rightarrow> CKLCheck list \<Rightarrow> 'k set" where
  "nafKeys env checks = {key env (cciOf env cc) | cc. cc \<in> set checks \<and> status cc = NotAFinding}"

definition keyList :: "(CCI \<Rightarrow> 'k) \<Rightarrow> QMapCCI \<Rightarrow> 'k list" where
  "keyList k m = map (\<lambda>e. k (fst e)) m"

text \<open>The CCI \<open>c\<close> has a row whose column 7 (compliance status) is \<open>st\<close>.\<close>

definition emittedWith :: "'k report_env \<Rightarrow> Row list \<Rightarrow> string \<Rightarrow> CCI \<Rightarrow> bool" where
  "emittedWith env rows st c =
     list_ex (\<lambda>r. key env (row_cci r) = key env c \<and> complianceStatus r = st) rows"

text \<open>The rows of the CCI \<open>c\<close>.\<close>

definition rowsFor :: "'k report_env \<Rightarrow> Row list \<Rightarrow> CCI \<Rightarrow> Row list" where
  "rowsFor env rows c = filter (\<lambda>r. key env (row_cci r) = key env c) rows"

subsection \<open>Example data for the report\<close>

text \<open>
  Two CCIs with imported results, keyed by their CCI number; the check on STIGCheck 7 is
  mapped to the first, every other check to the second.
\<close>

definition ex_cci1 :: CCI where
  "ex_cci1 = \<lparr> cci_id = 1, controlId = 10, cci = 366, cci_definition = ''d1'', isImport = True,
     importCompliance = ''Compliant'', importDateTested = ''01-Jan-2020'',
     importTestedBy = ''tester'', importTestResults = ''ok'' \<rparr>"

definition ex_cci2 :: CCI where
  "ex_cci2 = \<lparr> cci_id = 2, controlId = 11, cci = 15, cci_definition = ''d2'', isImport = True,
     importCompliance = ''Non-Compliant'', importDateTested = ''02-Jan-2020'',
     importTestedBy = ''tester'', importTestResults = ''bad'' \<rparr>"

definition ex_check :: "int \<Rightarrow> int \<Rightarrow> Status \<Rightarrow> CKLCheck" where
  "ex_check n sc s = \<lparr> ckl_id = n, assetId = 1, stigCheckId = sc, status = s,
     findingDetails = '''', comments = '''', severityOverride = 0, severityJustification = '''' \<rparr>"

definition ex_env :: "int report_env" where
  "ex_env = \<lparr> key = cci, cciOf = (\<lambda>cc. if stigCheckId cc = 7 then ex_cci1 else ex_cci2),
     sortChecks = (\<lambda>xs. xs), curDate = ''03-Nov-2026'', envUSER = ''root'', envUSERNAME = '''',
     isEmassImport = True \<rparr>"

section \<open>\<open>QString\<close> operations used by the import\<close>

text \<open>
  A \<open>QString\<close> is modelled as a \<open>string\<close>; the control identifiers and CCI identifiers
  of the feeds are ASCII. The operations follow the documented behaviour of Qt 5:
  \<open>indexOf\<close> returns -1 when the character is not found, \<open>left(n)\<close> and \<open>right(n)\<close>
  return the whole string when \<open>n\<close> is negative or not smaller than the size, and
  \<open>toInt()\<close> returns 0 when the string is not a decimal integer that fits an \<open>int\<close>.
\<close>

fun indexFrom :: "char \<Rightarrow> string \<Rightarrow> int \<Rightarrow> int" where
  "indexFrom ch [] n = -1"
| "indexFrom ch (x # xs) n = (if x = ch then n else indexFrom ch xs (n + 1))"

text \<open>\<open>s.indexOf(ch, from)\<close>; a negative \<open>from\<close> counts from the end.\<close>

definition indexOf :: "string \<Rightarrow> char \<Rightarrow> int \<Rightarrow> int" where
  "indexOf s ch from =
     (let f = (if from < 0 then max (from + int (length s)) 0 else from)
      in indexFrom ch (drop (nat f) s) f)"

definition contains :: "string \<Rightarrow> char \<Rightarrow> bool" where
  "contains s ch = (ch \<in> set s)"

definition left :: "string \<Rightarrow> int \<Rightarrow> string" where
  "left s n = (if n < 0 \<or> int (length s) \<le> n then s else take (nat n) s)"

definition right :: "string \<Rightarrow> int \<Rightarrow> string" where
  "right s n = (if n < 0 \<or> int (length s) \<le> n then s else drop (length s - nat n) s)"

text \<open>\<open>QChar::isSpace\<close> on the Latin-1 range: the characters 9 to 13, the space, NEL and the
  no-break space.\<close>

definition isSpace :: "char \<Rightarrow> bool" where
  "isSpace c = (c \<in> {CHR 0x09, CHR 0x0A, CHR 0x0B, CHR 0x0C, CHR 0x0D, CHR 0x20, CHR 0x85, CHR 0xA0})"

definition trimmed :: "string \<Rightarrow> string" where
  "trimmed s = rev (dropWhile isSpace (rev (dropWhile isSpace s)))"

text \<open>The value of a decimal digit; no other character has one.\<close>

definition digitValue :: "char \<Rightarrow> int option" where
  "digitValue c = map_of (zip ''0123456789'' [0, 1, 2, 3, 4, 5, 6, 7, 8, 9]) c"

definition isDigit :: "char \<Rightarrow> bool" where
  "isDigit c = (digitValue c \<noteq> None)"

text \<open>The value of a string of decimal digits, most significant digit first.\<close>

definition digitsValue :: "string \<Rightarrow> int" where
  "digitsValue ds = foldl (\<lambda>a c. 10 * a + (case digitValue c of Some d \<Rightarrow> d | None \<Rightarrow> 0)) 0 ds"

text \<open>
  \<open>s.toInt()\<close>, base 10: white space around the number is ignored, one sign is accepted, at
  least one digit is required and nothing else is allowed; a value outside the range of a
  32-bit \<open>int\<close> gives 0, as every failure does.
\<close>

definition toInt :: "string \<Rightarrow> int" where
  "toInt s =
     (let t = trimmed s;
          signed = (t \<noteq> [] \<and> (hd t = CHR ''-'' \<or> hd t = CHR ''+''));
          ds = (if signed then tl t else t);
          v = (if t \<noteq> [] \<and> hd t = CHR ''-'' then - digitsValue ds else digitsValue ds)
      in if ds = [] \<or> \<not> list_all isDigit ds then 0
         else if - 2147483648 \<le> v \<and> v \<le> 2147483647 then v
         else 0)"

text \<open>
  \<open>QStringRef(&s, pos, len)\<close> appended to a string. The constructor checks nothing, and
  appending a reference of negative length is undefined behaviour: the model returns
  \<open>None\<close> there.
\<close>

definition stringRef :: "string \<Rightarrow> int \<Rightarrow> int \<Rightarrow> string option" where
  "stringRef s pos len =
     (if 0 \<le> pos \<and> 0 \<le> len \<and> pos + len \<le> int (length s)
      then Some (take (nat len) (drop (nat pos) s))
      else None)"

section \<open>The textual control-id parse\<close>

subsection \<open>From a reference's index to a control string (workercciadd.cpp, lines 277-294)\<close>

text \<open>
  The index is cut at its first space and at its first dot; when it holds an opening
  parenthesis that comes before a second space (or there is no second space), the
  parenthesised part, up to the first closing parenthesis, is appended.
\<close>

definition referenceControl :: "string \<Rightarrow> string option" where
  "referenceControl index =
     (let control0 = index;
          tmpIndex = indexOf index (CHR '' '') 0;
          control1 = (if contains control0 (CHR '' '')
                      then left control0 (indexOf control0 (CHR '' '') 0) else control0);
          control2 = (if contains control1 (CHR ''.'')
                      then left control1 (indexOf control1 (CHR ''.'') 0) else control1)
      in if contains index (CHR ''('') then
           (let tmpIndex2 = indexOf index (CHR '' '') (tmpIndex + 1);
                tmpInt = indexOf index (CHR ''('') 0
            in if tmpIndex2 \<le> 0 \<or> tmpInt < tmpIndex2 then
                 (case stringRef index tmpInt (indexOf index (CHR '')'') 0 - tmpInt + 1) of
                    None \<Rightarrow> None
                  | Some enhancement \<Rightarrow> Some (control2 @ enhancement))
               else Some control2)
         else Some control2)"

subsection \<open>From a control string to family, number and enhancement (\<open>DbManager::GetControl\<close>)\<close>

text \<open>
  The part of \<open>DbManager::GetControl(QString)\<close> before the database is asked: the family is
  the first two characters, the number is what follows the third character, up to an
  opening parenthesis, and the enhancement is what stands between that parenthesis and the
  last character. The enhancement is -1 when there is no parenthesis.
\<close>

definition controlSecondSpace :: "string \<Rightarrow> string" where
  "controlSecondSpace control0 =
     (let control1 = trimmed control0;
          tmpIndex = indexOf control1 (CHR '' '') 0
      in if tmpIndex > 0 then
           (let tmpIndex2 = indexOf control1 (CHR '' '') (tmpIndex + 1)
            in if tmpIndex2 > 0 then trimmed (left control1 (tmpIndex2 + 1)) else control1)
         else control1)"

definition GetControl_parts :: "string \<Rightarrow> string \<times> int \<times> int" where
  "GetControl_parts control0 =
     (let control1 = controlSecondSpace control0;
          family = left control1 2;
          control2 = right control1 (int (length control1) - 3)
      in if contains control2 (CHR ''('') then
           (let tmpIndex = indexOf control2 (CHR ''('') 0;
                enhancement0 = right control2 (int (length control2) - tmpIndex - 1);
                enhancement = left enhancement0 (int (length enhancement0) - 1);
                control3 = left control2 (indexOf control2 (CHR ''('') 0)
            in (family, toInt control3, toInt enhancement))
         else (family, toInt control2, -1))"

text \<open>The two steps one after the other, as the CCI import runs them on a reference's index.\<close>

definition parseControlId :: "string \<Rightarrow> (string \<times> int \<times> int) option" where
  "parseControlId index = map_option GetControl_parts (referenceControl index)"

text \<open>Letters, and the decimal numerals that fit a 32-bit \<open>int\<close>.\<close>

definition isLetter :: "char \<Rightarrow> bool" where
  "isLetter c = (c \<in> set ''ABCDEFGHIJKLMNOPQRSTUVWXYZabcdefghijklmnopqrstuvwxyz'')"

definition isNumeral :: "string \<Rightarrow> bool" where
  "isNumeral ds = (ds \<noteq> [] \<and> list_all isDigit ds \<and> digitsValue ds \<le> 2147483647)"

text \<open>A control id written as family, hyphen, number and, when there is one, the enhancement
  in parentheses after a space.\<close>

definition controlIdText :: "string \<Rightarrow> string \<Rightarrow> string option \<Rightarrow> string" where
  "controlIdText fam ds enh =
     fam @ ''-'' @ ds @ (case enh of None \<Rightarrow> [] | Some es \<Rightarrow> '' ('' @ es @ '')'')"

section \<open>The relational store (\<open>DbManager\<close>, dbmanager.cpp)\<close>

subsection \<open>Rows\<close>

record Family =
  family_id :: int
  acronym :: string
  family_description :: string

text \<open>The column \<open>enhancement\<close> of a Control is NULL when the control is no enhancement.\<close>

record ControlRow =
  control_id :: int
  FamilyId :: int
  number :: int
  enhancement :: "int option"
  control_title :: string
  control_description :: string

record STIG =
  stig_id :: int
  stig_title :: string
  stig_description :: string
  release :: string
  version :: int
  benchmarkId :: string
  fileName :: string

text \<open>
  A STIGCheck has twenty-five columns. \<open>DbManager\<close> selects on \<open>id\<close>, \<open>STIGId\<close> and
  \<open>rule\<close> only; the columns it copies and never inspects (weight, group title, rule
  version, discussion, fix, check and the other guidance texts) are kept together, in column
  order, in \<open>guidance\<close>.
\<close>

record STIGCheck =
  stigcheck_id :: int
  stigId :: int
  cciId :: int
  rule :: string
  vulnNum :: string
  severity :: int
  stigcheck_title :: string
  guidance :: "string list"

record Asset =
  asset_id :: int
  assetType :: string
  hostName :: string
  hostIP :: string
  hostMAC :: string
  hostFQDN :: string
  techArea :: string
  targetKey :: string
  webOrDB :: bool
  webDbSite :: string
  webDbInstance :: string

record AssetSTIG =
  link_id :: int
  AssetId :: int
  STIGId :: int

subsection \<open>The database and the connection\<close>

text \<open>
  The tables hold their rows in insertion order. \<open>sqlite_sequence\<close> is the last key that
  AUTOINCREMENT gave out in each table. \<open>isOpen\<close> is the outcome of
  \<open>DbManager::CheckDatabase\<close> (the connection of the thread is open and valid), and
  \<open>delayCommit\<close> the flag \<open>_delayCommit\<close> of the manager. The tables have no constraint
  but the primary keys and three UNIQUE columns (the acronym and the description of a
  Family, the host name of an Asset); the schema declares foreign keys, which SQLite leaves
  unenforced unless asked. A statement fails in the model exactly when it violates a UNIQUE
  constraint.
\<close>

record Db =
  isOpen :: bool
  delayCommit :: bool
  Family_tbl :: "Family list"
  Control_tbl :: "ControlRow list"
  CCI_tbl :: "CCI list"
  STIG_tbl :: "STIG list"
  STIGCheck_tbl :: "STIGCheck list"
  Asset_tbl :: "Asset list"
  AssetSTIG_tbl :: "AssetSTIG list"
  CKLCheck_tbl :: "CKLCheck list"
  sqlite_sequence :: "string \<Rightarrow> int"

text \<open>The key that AUTOINCREMENT gives the next row of a table, and the table's new counter.\<close>

definition nextId :: "Db \<Rightarrow> string \<Rightarrow> int" where
  "nextId d tbl = sqlite_sequence d tbl + 1"

definition bumpSequence :: "Db \<Rightarrow> string \<Rightarrow> int \<Rightarrow> Db" where
  "bumpSequence d tbl n = d\<lparr>sqlite_sequence := (sqlite_sequence d)(tbl := sqlite_sequence d tbl + n)\<rparr>"

text \<open>
  A warning, by its title: \<open>Warning(title, message)\<close> and \<open>QMessageBox::warning\<close> raise a
  dialog; \<open>Warning(title, message, true)\<close> is the quiet form that the two STIG look-ups use.
  (\<open>Warning\<close> itself is not among the sources.)
\<close>

datatype warning = Warning string | QuietWarning string

text \<open>
  What a data-layer operation gives back: its return value, the warnings it raised, in
  order, and the database after it.
\<close>

type_synonym 'a outcome = "'a \<times> warning list \<times> Db"

subsection \<open>Default objects\<close>

text \<open>
  The default constructors are not among the sources. dbmanager.cpp documents the default
  Asset and the default CCI as "the default empty one with an ID of -1"; the other fields
  are taken empty, and the default STIG likewise.
\<close>

definition defaultAsset :: Asset where
  "defaultAsset = \<lparr> asset_id = -1, assetType = '''', hostName = '''', hostIP = '''', hostMAC = '''',
     hostFQDN = '''', techArea = '''', targetKey = '''', webOrDB = False, webDbSite = '''',
     webDbInstance = '''' \<rparr>"

definition defaultSTIG :: STIG where
  "defaultSTIG = \<lparr> stig_id = -1, stig_title = '''', stig_description = '''', release = '''',
     version = 0, benchmarkId = '''', fileName = '''' \<rparr>"

definition defaultCCI :: CCI where
  "defaultCCI = \<lparr> cci_id = -1, controlId = -1, cci = 0, cci_definition = '''', isImport = False,
     importCompliance = '''', importDateTested = '''', importTestedBy = '''',
     importTestResults = '''' \<rparr>"

subsection \<open>Queries\<close>

text \<open>SQLite's \<open>LOWER\<close> folds the ASCII letters only.\<close>

definition lowerChar :: "char \<Rightarrow> char" where
  "lowerChar c =
     (case map_of (zip ''ABCDEFGHIJKLMNOPQRSTUVWXYZ'' ''abcdefghijklmnopqrstuvwxyz'') c of
        Some l \<Rightarrow> l | None \<Rightarrow> c)"

definition LOWER :: "string \<Rightarrow> string" where
  "LOWER s = map lowerChar s"

text \<open>
  \<open>GetAssets(whereClause, variables)\<close>: the WHERE clause is a predicate on the row; the
  result is ordered by \<open>LOWER(hostName), hostName\<close>. A closed connection gives no rows.
\<close>

definition GetAssets :: "Db \<Rightarrow> (Asset \<Rightarrow> bool) \<Rightarrow> Asset list" where
  "GetAssets d whereClause =
     (if isOpen d
      then sort_key (\<lambda>a. (LOWER (hostName a), hostName a)) (filter whereClause (Asset_tbl d))
      else [])"

text \<open>
  \<open>GetAssets(stig)\<close>: the Assets joined to the AssetSTIG rows that name them and to the STIG
  rows those name, where the STIG has the given id; an Asset appears once for each such
  pair of rows.
\<close>

definition GetAssets_STIG :: "Db \<Rightarrow> STIG \<Rightarrow> Asset list" where
  "GetAssets_STIG d stig =
     (if isOpen d
      then sort_key (\<lambda>a. (LOWER (hostName a), hostName a))
             [a. a \<leftarrow> Asset_tbl d, l \<leftarrow> AssetSTIG_tbl d, AssetId l = asset_id a,
                 s \<leftarrow> STIG_tbl d, stig_id s = STIGId l, stig_id s = stig_id stig]
      else [])"

text \<open>\<open>GetAsset(hostName)\<close> fails quietly.\<close>

definition GetAsset_hostName :: "Db \<Rightarrow> string \<Rightarrow> Asset \<times> warning list" where
  "GetAsset_hostName d h =
     (case GetAssets d (\<lambda>a. hostName a = h) of
        a # _ \<Rightarrow> (a, [])
      | [] \<Rightarrow> (defaultAsset, []))"

definition GetAsset_id :: "Db \<Rightarrow> int \<Rightarrow> Asset \<times> warning list" where
  "GetAsset_id d i =
     (case GetAssets d (\<lambda>a. asset_id a = i) of
        a # _ \<Rightarrow> (a, [])
      | [] \<Rightarrow> (defaultAsset, [Warning ''Unable to Find Asset'']))"

text \<open>\<open>GetAsset(asset)\<close>: by id when the id is positive and in the table, else by host name.\<close>

definition GetAsset :: "Db \<Rightarrow> Asset \<Rightarrow> Asset \<times> warning list" where
  "GetAsset d asset =
     (if asset_id asset > 0 then
        (let r = GetAsset_id d (asset_id asset) in
         if asset_id (fst r) > 0 then r
         else (fst (GetAsset_hostName d (hostName asset)),
               snd r @ snd (GetAsset_hostName d (hostName asset))))
      else GetAsset_hostName d (hostName asset))"

text \<open>\<open>GetSTIGs(whereClause, variables)\<close>, ordered by \<open>LOWER(title), title\<close>.\<close>

definition GetSTIGs :: "Db \<Rightarrow> (STIG \<Rightarrow> bool) \<Rightarrow> STIG list" where
  "GetSTIGs d whereClause =
     (if isOpen d
      then sort_key (\<lambda>s. (LOWER (stig_title s), stig_title s)) (filter whereClause (STIG_tbl d))
      else [])"

text \<open>\<open>GetSTIGs(asset)\<close>: the STIGs whose id is the STIGId of an AssetSTIG row of the Asset.\<close>

definition GetSTIGs_Asset :: "Db \<Rightarrow> Asset \<Rightarrow> STIG list" where
  "GetSTIGs_Asset d asset =
     GetSTIGs d (\<lambda>s. stig_id s \<in> set (map STIGId
                   (filter (\<lambda>l. AssetId l = asset_id asset) (AssetSTIG_tbl d))))"

definition GetSTIG_id :: "Db \<Rightarrow> int \<Rightarrow> STIG \<times> warning list" where
  "GetSTIG_id d i =
     (case GetSTIGs d (\<lambda>s. stig_id s = i) of
        s # _ \<Rightarrow> (s, [])
      | [] \<Rightarrow> (defaultSTIG, [QuietWarning ''Unable to Find STIG'']))"

definition GetSTIG_key :: "Db \<Rightarrow> string \<Rightarrow> int \<Rightarrow> string \<Rightarrow> STIG \<times> warning list" where
  "GetSTIG_key d t v r =
     (case GetSTIGs d (\<lambda>s. stig_title s = t \<and> release s = r \<and> version s = v) of
        s # _ \<Rightarrow> (s, [])
      | [] \<Rightarrow> (defaultSTIG, [QuietWarning ''Unable to Find STIG'']))"

text \<open>\<open>GetSTIG(stig)\<close>: by id when the id is positive and in the table, else by title,
  version and release.\<close>

definition GetSTIG :: "Db \<Rightarrow> STIG \<Rightarrow> STIG \<times> warning list" where
  "GetSTIG d stig =
     (if stig_id stig > 0 then
        (let r = GetSTIG_id d (stig_id stig) in
         if stig_id (fst r) > 0 then r
         else (fst (GetSTIG_key d (stig_title stig) (version stig) (release stig)),
               snd r @ snd (GetSTIG_key d (stig_title stig) (version stig) (release stig))))
      else GetSTIG_key d (stig_title stig) (version stig) (release stig))"

text \<open>\<open>GetSTIGChecks(stig)\<close>, in table order.\<close>

definition GetSTIGChecks :: "Db \<Rightarrow> STIG \<Rightarrow> STIGCheck list" where
  "GetSTIGChecks d stig =
     (if isOpen d then filter (\<lambda>c. stigId c = stig_id stig) (STIGCheck_tbl d) else [])"

text \<open>\<open>GetCCIs(whereClause, variables)\<close>, ordered by the CCI number.\<close>

definition GetCCIs :: "Db \<Rightarrow> (CCI \<Rightarrow> bool) \<Rightarrow> CCI list" where
  "GetCCIs d whereClause =
     (if isOpen d then sort_key cci (filter whereClause (CCI_tbl d)) else [])"

definition GetCCI :: "Db \<Rightarrow> int \<Rightarrow> CCI" where
  "GetCCI d i = (case GetCCIs d (\<lambda>c. cci_id c = i) of c # _ \<Rightarrow> c | [] \<Rightarrow> defaultCCI)"

text \<open>\<open>GetCKLChecks(whereClause, variables)\<close>, in table order, and \<open>GetCKLChecks(asset, stig)\<close>
  with a STIG given.\<close>

definition GetCKLChecks :: "Db \<Rightarrow> (CKLCheck \<Rightarrow> bool) \<Rightarrow> CKLCheck list" where
  "GetCKLChecks d whereClause =
     (if isOpen d then filter whereClause (CKLCheck_tbl d) else [])"

definition GetCKLChecks_Asset :: "Db \<Rightarrow> Asset \<Rightarrow> STIG \<Rightarrow> CKLCheck list" where
  "GetCKLChecks_Asset d asset stig =
     GetCKLChecks d (\<lambda>c. assetId c = asset_id asset
        \<and> stigCheckId c \<in> set (map stigcheck_id
             (filter (\<lambda>sc. stigId sc = stig_id stig) (STIGCheck_tbl d))))"

text \<open>\<open>GetFamily(acronym)\<close>: the id of the first Family with the acronym, or -1.\<close>

definition GetFamily_id :: "Db \<Rightarrow> string \<Rightarrow> int" where
  "GetFamily_id d a =
     (if isOpen d
      then (case filter (\<lambda>f. acronym f = a) (Family_tbl d) of f # _ \<Rightarrow> family_id f | [] \<Rightarrow> -1)
      else -1)"

text \<open>
  \<open>GetControl(QString control).id\<close>: the control string is parsed, and the first Control with
  the number and the family is taken; the enhancement takes part in the selection only when
  it is positive. The id is -1 when there is no such row.
\<close>

definition GetControl_id :: "Db \<Rightarrow> string \<Rightarrow> int" where
  "GetControl_id d control =
     (let p = GetControl_parts control;
          family = fst p; num = fst (snd p); enh = snd (snd p);
          fid = GetFamily_id d family
      in if isOpen d then
           (case filter (\<lambda>c. number c = num \<and> FamilyId c = fid
                              \<and> (if enh > 0 then enhancement c = Some enh else True))
                     (Control_tbl d) of
              c # _ \<Rightarrow> control_id c
            | [] \<Rightarrow> -1)
         else -1)"

subsection \<open>Adding rows\<close>

text \<open>
  \<open>AddFamily\<close> inserts without looking; the statement fails when the acronym or the
  description is in the table already (both columns are UNIQUE). \<open>Sanitize\<close> is not among
  the sources and is a parameter.
\<close>

definition AddFamily :: "(string \<Rightarrow> string) \<Rightarrow> Db \<Rightarrow> string \<Rightarrow> string \<Rightarrow> bool outcome" where
  "AddFamily Sanitize d acr description =
     (if isOpen d then
        (if list_ex (\<lambda>f. acronym f = acr \<or> family_description f = Sanitize description)
              (Family_tbl d)
         then (False, [], d)
         else (True, [],
               bumpSequence
                 (d\<lparr>Family_tbl := Family_tbl d @
                      [\<lparr> family_id = nextId d ''Family'', acronym = acr,
                          family_description = Sanitize description \<rparr>]\<rparr>)
                 ''Family'' 1))
      else (False, [], d))"

text \<open>
  \<open>AddCCI\<close> counts the rows with the CCI number first. The inserted row takes the control,
  the number and the definition of the object; the import columns get their defaults. The
  id of the object is set to the new key only when commits are not delayed: the second
  component of the return value is the object after the call.
\<close>

definition AddCCI :: "Db \<Rightarrow> CCI \<Rightarrow> (bool \<times> CCI) outcome" where
  "AddCCI d c =
     (if isOpen d then
        (if length (filter (\<lambda>r. cci r = cci c) (CCI_tbl d)) > 0
         then ((False, c), [Warning ''CCI Already Exists''], d)
         else ((True, if delayCommit d then c else c\<lparr>cci_id := nextId d ''CCI''\<rparr>), [],
               bumpSequence
                 (d\<lparr>CCI_tbl := CCI_tbl d @
                      [\<lparr> cci_id = nextId d ''CCI'', controlId = controlId c, cci = cci c,
                          cci_definition = cci_definition c, isImport = False,
                          importCompliance = '''', importDateTested = '''',
                          importTestedBy = '''', importTestResults = '''' \<rparr>]\<rparr>)
                 ''CCI'' 1))
      else ((False, c), [], d))"





subsection \<open>Deleting rows\<close>

text \<open>
  \<open>DeleteAsset(asset)\<close>. \<open>Asset::STIGs()\<close> is not among the sources; it is the Asset's
  \<open>GetSTIGs(asset)\<close>.
\<close>

definition DeleteAsset :: "Db \<Rightarrow> Asset \<Rightarrow> bool outcome" where
  "DeleteAsset d asset =
     (if length (GetSTIGs_Asset d asset) > 0 then (False, [Warning ''Asset Has Mapped STIGs''], d)
      else if isOpen d then
        (True, [], d\<lparr>Asset_tbl := filter (\<lambda>a. asset_id a \<noteq> asset_id asset) (Asset_tbl d)\<rparr>)
      else (False, [], d))"

definition DeleteAsset_id :: "Db \<Rightarrow> int \<Rightarrow> bool outcome" where
  "DeleteAsset_id d i =
     (let r = DeleteAsset d (fst (GetAsset_id d i))
      in (fst r, snd (GetAsset_id d i) @ fst (snd r), snd (snd r)))"

text \<open>
  \<open>DeleteSTIG(id)\<close>. \<open>STIG::Assets()\<close> is not among the sources; it is the STIG's
  \<open>GetAssets(stig)\<close>.
\<close>

definition DeleteSTIG :: "Db \<Rightarrow> int \<Rightarrow> bool outcome" where
  "DeleteSTIG d i =
     (if isOpen d then
        (let r = GetSTIG_id d i; tmpStig = fst r; assets = GetAssets_STIG d tmpStig in
         if length assets > 0 then (False, snd r @ [Warning ''STIG In Use''], d)
         else (True, snd r,
               d\<lparr>STIGCheck_tbl := filter (\<lambda>c. stigId c \<noteq> i) (STIGCheck_tbl d),
                  STIG_tbl := filter (\<lambda>s. stig_id s \<noteq> i) (STIG_tbl d)\<rparr>))
      else (False, [], d))"

text \<open>\<open>DeleteSTIG(stig)\<close>, which \<open>STIGQter::DeleteSTIGs\<close> calls for every selected STIG.\<close>

definition DeleteSTIG_STIG :: "Db \<Rightarrow> STIG \<Rightarrow> bool outcome" where
  "DeleteSTIG_STIG d stig = DeleteSTIG d (stig_id stig)"

text \<open>\<open>STIGQter::DeleteSTIGs\<close> on the selected STIGs: the outcomes of the calls, one after the
  other.\<close>

fun DeleteSTIGs :: "Db \<Rightarrow> STIG list \<Rightarrow> (bool list) outcome" where
  "DeleteSTIGs d [] = ([], [], d)"
| "DeleteSTIGs d (s # ss) =
     (let r = DeleteSTIG_STIG d s; rest = DeleteSTIGs (snd (snd r)) ss
      in (fst r # fst rest, fst (snd r) @ fst (snd rest), snd (snd rest)))"

definition DeleteSTIGFromAsset :: "Db \<Rightarrow> STIG \<Rightarrow> Asset \<Rightarrow> bool outcome" where
  "DeleteSTIGFromAsset d stig asset =
     (if isOpen d then
        (let rs = GetSTIG d stig; ra = GetAsset d asset;
             tmpSTIG = fst rs; tmpAsset = fst ra; w = snd rs @ snd ra
         in if stig_id tmpSTIG > 0 \<and> asset_id tmpAsset > 0 then
              (True, w,
               d\<lparr>AssetSTIG_tbl :=
                    filter (\<lambda>l. \<not> (AssetId l = asset_id tmpAsset \<and> STIGId l = stig_id tmpSTIG))
                      (AssetSTIG_tbl d),
                  CKLCheck_tbl :=
                    filter (\<lambda>c. \<not> (assetId c = asset_id tmpAsset
                          \<and> stigCheckId c \<in> set (map stigcheck_id
                               (filter (\<lambda>sc. stigId sc = stig_id tmpSTIG) (STIGCheck_tbl d)))))
                      (CKLCheck_tbl d)\<rparr>)
            else (False, w, d))
      else (False, [], d))"

subsection \<open>Example database\<close>

text \<open>
  One Family, one Control, the two example CCIs, one STIG with two checks (and a check of
  another STIG), and one Asset. In \<open>ex_db\<close> the STIG is attached to the Asset; in
  \<open>ex_db0\<close> it is not.
\<close>

definition ex_stig :: STIG where
  "ex_stig = \<lparr> stig_id = 1, stig_title = ''Example STIG'', stig_description = '''',
     release = ''Release: 1'', version = 2, benchmarkId = ''EX'', fileName = ''ex.zip'' \<rparr>"

definition ex_stigcheck :: "int \<Rightarrow> int \<Rightarrow> STIGCheck" where
  "ex_stigcheck i s = \<lparr> stigcheck_id = i, stigId = s, cciId = 1, rule = ''SV-1'', vulnNum = ''V-1'',
     severity = 2, stigcheck_title = ''t'', guidance = [] \<rparr>"

definition ex_asset :: Asset where
  "ex_asset = \<lparr> asset_id = 1, assetType = ''Computing'', hostName = ''TEST'',
     hostIP = ''127.0.0.1'', hostMAC = ''00:00:00:00:00'', hostFQDN = ''localhost'',
     techArea = '''', targetKey = '''', webOrDB = False, webDbSite = '''', webDbInstance = '''' \<rparr>"

definition ex_db0 :: Db where
  "ex_db0 = \<lparr> isOpen = True, delayCommit = False,
     Family_tbl = [\<lparr> family_id = 1, acronym = ''AC'', family_description = ''Access Control'' \<rparr>],
     Control_tbl = [\<lparr> control_id = 1, FamilyId = 1, number = 2, enhancement = Some 1,
                      control_title = ''ACCOUNT MANAGEMENT'', control_description = '''' \<rparr>],
     CCI_tbl = [ex_cci1, ex_cci2],
     STIG_tbl = [ex_stig],
     STIGCheck_tbl = [ex_stigcheck 7 1, ex_stigcheck 8 1, ex_stigcheck 9 2],
     Asset_tbl = [ex_asset],
     AssetSTIG_tbl = [],
     CKLCheck_tbl = [],
     sqlite_sequence = (\<lambda>t. 9) \<rparr>"

definition ex_db :: Db where
  "ex_db = ex_db0\<lparr> AssetSTIG_tbl := [\<lparr> link_id = 1, AssetId = 1, STIGId = 1 \<rparr>],
                   CKLCheck_tbl := [ex_check 1 7 NotAFinding, ex_check 2 8 Open] \<rparr>"

section \<open>The CCI import (workercciadd.cpp, steps 6 and 7)\<close>

subsection \<open>The token stream of \<open>QXmlStreamReader\<close>\<close>

text \<open>
  A document is the list of tokens that \<open>readNext()\<close> gives. \<open>Comment\<close> stands for comments
  and processing instructions. \<open>Invalid\<close> is the token of a parse error: once it is read,
  \<open>hasError()\<close> holds. Entity references are resolved into \<open>Characters\<close>.
\<close>

datatype token =
    StartElement string "(string \<times> string) list"
  | EndElement string
  | Characters string
  | Comment
  | Invalid

text \<open>
  \<open>readElementText()\<close>, called on a start element: the text up to the end element, the tokens
  left, and whether an error was raised. A child element, a parse error and the end of the
  input before the end element raise one; what was read until then is returned.
\<close>

fun readElementText :: "string \<Rightarrow> token list \<Rightarrow> string \<times> token list \<times> bool" where
  "readElementText acc [] = (acc, [], True)"
| "readElementText acc (Characters s # ts) = readElementText (acc @ s) ts"
| "readElementText acc (Comment # ts) = readElementText acc ts"
| "readElementText acc (EndElement n # ts) = (acc, ts, False)"
| "readElementText acc (StartElement n a # ts) = (acc, ts, True)"
| "readElementText acc (Invalid # ts) = (acc, ts, True)"

definition hasAttribute :: "(string \<times> string) list \<Rightarrow> string \<Rightarrow> bool" where
  "hasAttribute attrs n = list_ex (\<lambda>a. fst a = n) attrs"

text \<open>The loop \<open>Q_FOREACH (attr, xml->attributes()) if (attr.name() == n) v = attr.value()\<close>.\<close>

definition attributeValue :: "(string \<times> string) list \<Rightarrow> string \<Rightarrow> string \<Rightarrow> string" where
  "attributeValue attrs n v0 = foldl (\<lambda>v a. if fst a = n then snd a else v) v0 attrs"

subsection \<open>Parsing one document (lines 242-304)\<close>

text \<open>The variables of the loop: the id of the last \<open>cci_item\<close>, the last definition, and the
  CCIs collected so far.\<close>

record import_state =
  st_cci :: string
  st_definition :: string
  toAdd :: "CCI list"

definition cciItemElement :: "import_state \<Rightarrow> (string \<times> string) list \<Rightarrow> import_state" where
  "cciItemElement st attrs =
     (if hasAttribute attrs ''id''
      then st\<lparr>st_cci := attributeValue attrs ''id'' (st_cci st)\<rparr>
      else st)"

text \<open>The version and the index of a \<open>reference\<close>, read in one loop over its attributes.\<close>

definition versionAndIndex :: "(string \<times> string) list \<Rightarrow> string \<times> string" where
  "versionAndIndex attrs =
     foldl (\<lambda>vi a. if fst a = ''version'' then (snd a, snd vi)
                    else if fst a = ''index'' then (fst vi, snd a)
                    else vi) ([], []) attrs"

text \<open>
  A \<open>reference\<close> element. The result is \<open>None\<close> where the control string is built from a
  string reference of negative length (undefined behaviour).
\<close>

definition referenceElement ::
  "Db \<Rightarrow> import_state \<Rightarrow> (string \<times> string) list \<Rightarrow> import_state option" where
  "referenceElement d st attrs =
     (if hasAttribute attrs ''version'' \<and> hasAttribute attrs ''index'' \<and> st_cci st \<noteq> [] then
        (let ver = fst (versionAndIndex attrs); index = snd (versionAndIndex attrs) in
         if ver \<noteq> [] \<and> index \<noteq> [] \<and> ver = ''4'' then
           (case referenceControl index of
              None \<Rightarrow> None
            | Some control \<Rightarrow>
                Some (st\<lparr>toAdd := toAdd st @
                       [defaultCCI\<lparr>cci := toInt (right (st_cci st) 6),
                                   controlId := GetControl_id d control,
                                   cci_definition := st_definition st\<rparr>]\<rparr>))
         else Some st)
      else Some st)"

lemma readElementText_length:
  "readElementText acc ts = (txt, rest, err) \<Longrightarrow> length rest \<le> length ts"
  by (induction acc ts rule: readElementText.induct) auto

text \<open>
  The loop \<open>while (!xml->atEnd() && !xml->hasError())\<close>: it ends at the end of the tokens and
  at the first error, whether \<open>readNext()\<close> or \<open>readElementText()\<close> raised it.
\<close>

function parseCCIs :: "Db \<Rightarrow> import_state \<Rightarrow> token list \<Rightarrow> import_state option" where
  "parseCCIs d st [] = Some st"
| "parseCCIs d st (Invalid # ts) = Some st"
| "parseCCIs d st (StartElement n attrs # ts) =
     (if n = ''cci_item'' then parseCCIs d (cciItemElement st attrs) ts
      else if n = ''definition'' then
        (case readElementText [] ts of
           (txt, rest, err) \<Rightarrow>
             if err then Some (st\<lparr>st_definition := txt\<rparr>)
             else parseCCIs d (st\<lparr>st_definition := txt\<rparr>) rest)
      else if n = ''reference'' then
        (case referenceElement d st attrs of
           None \<Rightarrow> None
         | Some st' \<Rightarrow> parseCCIs d st' ts)
      else parseCCIs d st ts)"
| "parseCCIs d st (EndElement n # ts) = parseCCIs d st ts"
| "parseCCIs d st (Characters s # ts) = parseCCIs d st ts"
| "parseCCIs d st (Comment # ts) = parseCCIs d st ts"
  by pat_completeness auto
termination
  by (relation "measure (\<lambda>(d, st, ts). length ts)")
     (auto dest: readElementText_length[OF sym])

subsection \<open>All documents, and adding the CCIs\<close>

text \<open>Every document of the archive is parsed with fresh variables; the list of CCIs goes on
  from one document to the next.\<close>

definition parseFile :: "Db \<Rightarrow> CCI list \<Rightarrow> token list \<Rightarrow> CCI list option" where
  "parseFile d acc tokens =
     map_option toAdd (parseCCIs d \<lparr>st_cci = [], st_definition = [], toAdd = acc\<rparr> tokens)"

fun parseFiles :: "Db \<Rightarrow> CCI list \<Rightarrow> token list list \<Rightarrow> CCI list option" where
  "parseFiles d acc [] = Some acc"
| "parseFiles d acc (f # fs) =
     (case parseFile d acc f of None \<Rightarrow> None | Some acc' \<Rightarrow> parseFiles d acc' fs)"

text \<open>Step 7: \<open>AddCCI\<close> for every collected CCI, whatever the calls return.\<close>

fun addCCIs :: "Db \<Rightarrow> CCI list \<Rightarrow> warning list \<times> Db" where
  "addCCIs d [] = ([], d)"
| "addCCIs d (c # cs) =
     (let r = AddCCI d c; rest = addCCIs (snd (snd r)) cs
      in (fst (snd r) @ fst rest, snd rest))"

definition importCCIs :: "Db \<Rightarrow> token list list \<Rightarrow> (warning list \<times> Db) option" where
  "importCCIs d files =
     (case parseFiles d [] files of
        None \<Rightarrow> None
      | Some cs \<Rightarrow>
          (let r = addCCIs (d\<lparr>delayCommit := True\<rparr>) cs
           in Some (fst r, (snd r)\<lparr>delayCommit := False\<rparr>)))"

subsection \<open>Reading the families (workercciadd.cpp, lines 84-111)\<close>

definition endsWith :: "string \<Rightarrow> string \<Rightarrow> bool" where
  "endsWith s suffix =
     (length suffix \<le> length s \<and> drop (length s - length suffix) s = suffix)"

text \<open>The id and the href of an \<open>a\<close> element, read in one loop over its attributes.\<close>

definition idAndHref :: "(string \<times> string) list \<Rightarrow> string \<times> string" where
  "idAndHref attrs =
     foldl (\<lambda>ih a. if fst a = ''id'' then (snd a, snd ih)
                    else if fst a = ''href'' then (fst ih, snd a)
                    else ih) ([], []) attrs"

text \<open>The variables of the loop: the connection and the list of pages to download.\<close>

record family_state =
  fs_db :: Db
  todo :: "string list"

text \<open>
  A family link with the text \<open>txt\<close>: the acronym is the first two characters of the trimmed
  text and the name is what follows its fifth character. The family is added, whatever
  \<open>AddFamily\<close> returns, and the link is kept for the download of the controls.
\<close>

definition familyLink ::
  "(string \<Rightarrow> string) \<Rightarrow> family_state \<Rightarrow> string \<Rightarrow> string \<Rightarrow> family_state" where
  "familyLink Sanitize st href txt =
     (let family = trimmed txt;
          acr = left family 2;
          familyName = trimmed (right family (int (length family) - 5))
      in \<lparr> fs_db = snd (snd (AddFamily Sanitize (fs_db st) acr familyName)),
           todo = todo st @ [href] \<rparr>)"

text \<open>The loop \<open>while (!xml->atEnd() && !xml->hasError())\<close> over the page of the families.\<close>

function parseFamilies ::
  "(string \<Rightarrow> string) \<Rightarrow> family_state \<Rightarrow> token list \<Rightarrow> family_state" where
  "parseFamilies Sanitize st [] = st"
| "parseFamilies Sanitize st (Invalid # ts) = st"
| "parseFamilies Sanitize st (StartElement n attrs # ts) =
     (if n = ''a'' \<and> hasAttribute attrs ''id'' \<and> hasAttribute attrs ''href''
         \<and> endsWith (fst (idAndHref attrs)) ''FamilyLink''
      then
        (case readElementText [] ts of
           (txt, rest, err) \<Rightarrow>
             if err then familyLink Sanitize st (snd (idAndHref attrs)) txt
             else parseFamilies Sanitize (familyLink Sanitize st (snd (idAndHref attrs)) txt) rest)
      else parseFamilies Sanitize st ts)"
| "parseFamilies Sanitize st (EndElement n # ts) = parseFamilies Sanitize st ts"
| "parseFamilies Sanitize st (Characters s # ts) = parseFamilies Sanitize st ts"
| "parseFamilies Sanitize st (Comment # ts) = parseFamilies Sanitize st ts"
  by pat_completeness auto
termination
  by (relation "measure (\<lambda>(S, st, ts). length ts)")
     (auto dest: readElementText_length[OF sym])

text \<open>Step 3: the loop between \<open>DelayCommit(true)\<close> and \<open>DelayCommit(false)\<close>.\<close>

definition readFamilies :: "(string \<Rightarrow> string) \<Rightarrow> Db \<Rightarrow> token list \<Rightarrow> family_state" where
  "readFamilies Sanitize d page =
     (let st = parseFamilies Sanitize \<lparr> fs_db = d\<lparr>delayCommit := True\<rparr>, todo = [] \<rparr> page
      in st\<lparr>fs_db := (fs_db st)\<lparr>delayCommit := False\<rparr>\<rparr>)"

subsection \<open>The elements of a \<open>cci_item\<close>\<close>

text \<open>
  To speak of the \<open>cci_item\<close> that encloses a \<open>reference\<close>, a well-formed item is given by
  the attributes of its start tag and by what stands between its tags: definitions with
  their text, references (empty elements), the start and end tags of other elements, and
  text.
\<close>

datatype piece =
    Definition "string list"
  | Reference "(string \<times> string) list"
  | Element string "(string \<times> string) list"
  | EndOf string
  | Text string

fun pieceTokens :: "piece \<Rightarrow> token list" where
  "pieceTokens (Definition txts) =
     StartElement ''definition'' [] # map Characters txts @ [EndElement ''definition'']"
| "pieceTokens (Reference attrs) = [StartElement ''reference'' attrs, EndElement ''reference'']"
| "pieceTokens (Element n attrs) = [StartElement n attrs]"
| "pieceTokens (EndOf n) = [EndElement n]"
| "pieceTokens (Text s) = [Characters s]"

definition itemTokens :: "(string \<times> string) list \<Rightarrow> piece list \<Rightarrow> token list" where
  "itemTokens ia body =
     StartElement ''cci_item'' ia # concat (map pieceTokens body) @ [EndElement ''cci_item'']"




subsection \<open>Example documents\<close>

definition ex_body :: "piece list" where
  "ex_body =
     [Element ''status'' [], Text ''draft'', EndOf ''status'',
      Definition [''The organization '', ''manages accounts.''],
      Element ''references'' [],
      Reference [(''creator'', ''NIST''), (''version'', ''3''), (''index'', ''AC-2 (1)'')],
      Reference [(''creator'', ''NIST''), (''version'', ''4''), (''index'', ''AC-2 (1)'')],
      EndOf ''references'']"

definition ex_item :: "token list" where
  "ex_item = itemTokens [(''id'', ''CCI-000015'')] ex_body"

definition ex_item2 :: "token list" where
  "ex_item2 = itemTokens [(''id'', ''CCI-000366'')]
     [Definition [''The organization implements the settings.''],
      Reference [(''version'', ''4''), (''index'', ''AC-2'')]]"

definition ex_state :: import_state where
  "ex_state = \<lparr> st_cci = [], st_definition = [], toAdd = [] \<rparr>"

text \<open>A page with two family links.\<close>

definition ex_link :: "string \<Rightarrow> string \<Rightarrow> string \<Rightarrow> token list" where
  "ex_link i h txt =
     [StartElement ''a'' [(''id'', i), (''href'', h)], Characters txt, EndElement ''a'']"

definition ex_page_head :: "token list" where
  "ex_page_head = ex_link ''AUFamilyLink'' ''/800-53/Rev4/family/AU'' ''AU - Audit and Accountability''"

definition ex_page_tail :: "token list" where
  "ex_page_tail = ex_link ''CMFamilyLink'' ''/800-53/Rev4/family/CM'' ''CM - Configuration Management''"
section \<open>Properties of the report\<close>

lemma qmap_contains_keysOf: "qmap_contains k m c \<longleftrightarrow> k c \<in> keysOf k m"
  by (induction m) (auto simp: qmap_contains_def keysOf_def)

lemma keysOf_remove: "keysOf k (qmap_remove k m c) = keysOf k m - {k c}"
  by (induction m) (auto simp: keysOf_def qmap_remove_def)

lemma keysOf_append: "keysOf k (qmap_append k m c cc) = keysOf k m"
  by (induction m) (auto simp: keysOf_def qmap_append_def)

lemma keysOf_insert: "keysOf k (qmap_insert k m c v) = insert (k c) (keysOf k m)"
proof (cases "qmap_contains k m c")
  case True
  then have "k c \<in> keysOf k m" by (simp add: qmap_contains_keysOf)
  moreover have "keysOf k (map (\<lambda>e. if k (fst e) = k c then (fst e, v) else e) m) = keysOf k m"
    by (induction m) (auto simp: keysOf_def)
  ultimately show ?thesis using True by (auto simp: qmap_insert_def)
next
  case False
  then show ?thesis by (simp add: qmap_insert_def keysOf_def set_insort_key)
qed

lemma classifyCheck_keys:
  assumes "keysOf (key env) (fst fp) = F" "keysOf (key env) (snd fp) = P"
  shows "keysOf (key env) (fst (classifyCheck env fp cc)) =
           (if status cc = Open then insert (key env (cciOf env cc)) F else F)"
    and "keysOf (key env) (snd (classifyCheck env fp cc)) =
           (if status cc = Open then P - {key env (cciOf env cc)}
            else if status cc = NotAFinding \<and> key env (cciOf env cc) \<notin> F
              then insert (key env (cciOf env cc)) P else P)"
  using assms
  by (auto simp: classifyCheck_def Let_def qmap_contains_keysOf keysOf_remove keysOf_append keysOf_insert)

lemma foldl_classify_keys:
  assumes "keysOf (key env) (fst fp) = F" "keysOf (key env) (snd fp) = P" "F \<inter> P = {}"
  shows "keysOf (key env) (fst (foldl (classifyCheck env) fp checks)) = F \<union> openKeys env checks
       \<and> keysOf (key env) (snd (foldl (classifyCheck env) fp checks))
           = (P \<union> nafKeys env checks) - (F \<union> openKeys env checks)"
  using assms
proof (induction checks arbitrary: fp F P)
  case Nil
  then show ?case by (auto simp: openKeys_def nafKeys_def)
next
  case (Cons cc checks)
  let ?fp = "classifyCheck env fp cc"
  let ?kc = "key env (cciOf env cc)"
  let ?F = "if status cc = Open then insert ?kc F else F"
  let ?P = "if status cc = Open then P - {?kc}
            else if status cc = NotAFinding \<and> ?kc \<notin> F then insert ?kc P else P"
  have f: "keysOf (key env) (fst ?fp) = ?F" and p: "keysOf (key env) (snd ?fp) = ?P"
    using classifyCheck_keys[OF Cons.prems(1,2)] by auto
  have d: "?F \<inter> ?P = {}" using Cons.prems(3) by auto
  have ih: "keysOf (key env) (fst (foldl (classifyCheck env) ?fp checks)) = ?F \<union> openKeys env checks
       \<and> keysOf (key env) (snd (foldl (classifyCheck env) ?fp checks))
           = (?P \<union> nafKeys env checks) - (?F \<union> openKeys env checks)"
    by (rule Cons.IH[OF f p d])
  have o: "openKeys env (cc # checks) = (if status cc = Open then {?kc} else {}) \<union> openKeys env checks"
    by (auto simp: openKeys_def)
  have n: "nafKeys env (cc # checks) = (if status cc = NotAFinding then {?kc} else {}) \<union> nafKeys env checks"
    by (auto simp: nafKeys_def)
  show ?case using ih Cons.prems(3) unfolding o n foldl_Cons by (auto split: if_splits)
qed

lemma keysOf_keyList: "keysOf k m = set (keyList k m)"
  by (simp add: keysOf_def keyList_def)

lemma keyList_append: "keyList k (qmap_append k m c cc) = keyList k m"
  by (induction m) (auto simp: keyList_def qmap_append_def)

lemma keyList_remove: "keyList k (qmap_remove k m c) = filter (\<lambda>x. x \<noteq> k c) (keyList k m)"
  by (induction m) (auto simp: keyList_def qmap_remove_def)

lemma distinct_keyList_insort:
  "distinct (keyList k m) \<Longrightarrow> k c \<notin> set (keyList k m)
   \<Longrightarrow> distinct (keyList k (insort_key (\<lambda>e. k (fst e)) (c, v) m))"
  by (induction m) (auto simp: keyList_def set_insort_key)

lemma distinct_keyList_insert:
  "distinct (keyList k m) \<Longrightarrow> \<not> qmap_contains k m c \<Longrightarrow> distinct (keyList k (qmap_insert k m c v))"
  by (simp add: qmap_insert_def distinct_keyList_insort qmap_contains_keysOf keysOf_keyList)

lemma classifyCheck_distinct:
  assumes "distinct (keyList (key env) (fst fp))" "distinct (keyList (key env) (snd fp))"
  shows "distinct (keyList (key env) (fst (classifyCheck env fp cc)))
       \<and> distinct (keyList (key env) (snd (classifyCheck env fp cc)))"
  using assms
  by (simp add: classifyCheck_def Let_def keyList_append keyList_remove distinct_keyList_insert)

lemma foldl_classify_distinct:
  assumes "distinct (keyList (key env) (fst fp))" "distinct (keyList (key env) (snd fp))"
  shows "distinct (keyList (key env) (fst (foldl (classifyCheck env) fp checks)))
       \<and> distinct (keyList (key env) (snd (foldl (classifyCheck env) fp checks)))"
  using assms
proof (induction checks arbitrary: fp)
  case Nil
  then show ?case by simp
next
  case (Cons cc checks)
  then show ?case using classifyCheck_distinct[of env fp cc] by simp
qed

lemma classifyChecks_keys:
  "keysOf (key env) (fst (classifyChecks env checks)) = openKeys env checks"
  "keysOf (key env) (snd (classifyChecks env checks)) = nafKeys env checks - openKeys env checks"
  using foldl_classify_keys[of env "([], [])" "{}" "{}" checks]
  by (simp_all add: classifyChecks_def keysOf_def)

lemma classifyChecks_distinct:
  "distinct (keyList (key env) (fst (classifyChecks env checks)))"
  "distinct (keyList (key env) (snd (classifyChecks env checks)))"
  using foldl_classify_distinct[of env "([], [])" checks]
  by (simp_all add: classifyChecks_def keyList_def)

lemma emittedWith_append:
  "emittedWith env (xs @ ys) st c \<longleftrightarrow> emittedWith env xs st c \<or> emittedWith env ys st c"
  by (auto simp: emittedWith_def list_ex_iff)

lemma failedRow_sel:
  "row_cci (failedRow env e) = fst e" "complianceStatus (failedRow env e) = ''Non-Compliant''"
  by (simp_all add: failedRow_def Let_def)

lemma passedRow_sel:
  "row_cci (passedRow env e) = fst e" "complianceStatus (passedRow env e) = ''Compliant''"
  by (simp_all add: passedRow_def Let_def)

lemma oldRow_sel:
  "row_cci (oldRow c) = c" "complianceStatus (oldRow c) = []"
  by (simp_all add: oldRow_def)

lemma emittedWith_failed:
  "emittedWith env (map (failedRow env) m) st c \<longleftrightarrow> st = ''Non-Compliant'' \<and> key env c \<in> keysOf (key env) m"
  by (induction m) (auto simp: emittedWith_def failedRow_sel keysOf_def)

lemma emittedWith_passed:
  "emittedWith env (map (passedRow env) m) st c \<longleftrightarrow> st = ''Compliant'' \<and> key env c \<in> keysOf (key env) m"
  by (induction m) (auto simp: emittedWith_def passedRow_sel keysOf_def)

lemma emittedWith_old:
  "emittedWith env (map oldRow (oldResultCCIs env f p ccis)) st c \<longleftrightarrow>
     st = [] \<and> (\<exists>d \<in> set ccis. key env d = key env c \<and> isImport d)
     \<and> key env c \<notin> keysOf (key env) f \<and> key env c \<notin> keysOf (key env) p"
  by (induction ccis) (auto simp: emittedWith_def oldRow_sel oldResultCCIs_def qmap_contains_keysOf)

lemma emittedWith_report:
  "emittedWith env (reportRows env checks ccis) st c \<longleftrightarrow>
     (st = ''Non-Compliant'' \<and> key env c \<in> openKeys env checks)
   \<or> (st = ''Compliant'' \<and> key env c \<in> nafKeys env checks - openKeys env checks)
   \<or> (st = [] \<and> (\<exists>d \<in> set ccis. key env d = key env c \<and> isImport d)
       \<and> key env c \<notin> openKeys env checks \<and> key env c \<notin> nafKeys env checks)"
  unfolding reportRows_def Let_def emittedWith_append emittedWith_failed emittedWith_passed
    emittedWith_old classifyChecks_keys
  by auto

lemma openKeys_iff:
  "k \<in> openKeys env checks \<longleftrightarrow> (\<exists>cc \<in> set checks. key env (cciOf env cc) = k \<and> status cc = Open)"
  by (auto simp: openKeys_def)

lemma nafKeys_iff:
  "k \<in> nafKeys env checks \<longleftrightarrow> (\<exists>cc \<in> set checks. key env (cciOf env cc) = k \<and> status cc = NotAFinding)"
  by (auto simp: nafKeys_def)

text \<open>
  Claim C1. In the report a CCI gets a row with compliance status "Non-Compliant" exactly
  when some CKLCheck mapped to it is Open, and a row with status "Compliant" exactly when
  some CKLCheck mapped to it is NotAFinding and none is Open; no CCI gets both; and the rows
  a CCI gets under any status are the same for every order in which the same checks are
  examined. "Mapped to" is equality of keys, as in the \<open>QMap\<close>.
\<close>

theorem report_partition:
  assumes "mset checks' = mset checks"
  shows "(emittedWith env (reportRows env checks ccis) ''Non-Compliant'' c \<longleftrightarrow>
            (\<exists>cc \<in> set checks. key env (cciOf env cc) = key env c \<and> status cc = Open))
       \<and> (emittedWith env (reportRows env checks ccis) ''Compliant'' c \<longleftrightarrow>
            (\<exists>cc \<in> set checks. key env (cciOf env cc) = key env c \<and> status cc = NotAFinding)
            \<and> \<not> (\<exists>cc \<in> set checks. key env (cciOf env cc) = key env c \<and> status cc = Open))
       \<and> \<not> (emittedWith env (reportRows env checks ccis) ''Non-Compliant'' c
            \<and> emittedWith env (reportRows env checks ccis) ''Compliant'' c)
       \<and> (emittedWith env (reportRows env checks' ccis) st c
            \<longleftrightarrow> emittedWith env (reportRows env checks ccis) st c)"
proof -
  have s: "set checks' = set checks" using assms by (metis set_mset_mset)
  have o: "openKeys env checks' = openKeys env checks" by (simp add: openKeys_def s)
  have n: "nafKeys env checks' = nafKeys env checks" by (simp add: nafKeys_def s)
  show ?thesis
    unfolding emittedWith_report o n by (auto simp: openKeys_iff nafKeys_iff)
qed

lemma rowsFor_append: "rowsFor env (xs @ ys) c = rowsFor env xs c @ rowsFor env ys c"
  by (simp add: rowsFor_def)

lemma filter_key_absent:
  "k \<notin> f ` set xs \<Longrightarrow> filter (\<lambda>y. f y = k) xs = []"
  by (induction xs) auto

lemma filter_key_distinct:
  "distinct (map f xs) \<Longrightarrow> x \<in> set xs \<Longrightarrow> filter (\<lambda>y. f y = f x) xs = [x]"
proof (induction xs)
  case Nil
  then show ?case by simp
next
  case (Cons a xs)
  show ?case
  proof (cases "a = x")
    case True
    have "f x \<notin> f ` set xs" using Cons.prems(1) True by simp
    then have "filter (\<lambda>y. f y = f x) xs = []" by (rule filter_key_absent)
    then show ?thesis using True by simp
  next
    case False
    then have "x \<in> set xs" using Cons.prems(2) by simp
    moreover have "f a \<noteq> f x" using Cons.prems(1) \<open>x \<in> set xs\<close> by auto
    ultimately show ?thesis using Cons by simp
  qed
qed

lemma rowsFor_failed_absent:
  "key env c \<notin> keysOf (key env) m \<Longrightarrow> rowsFor env (map (failedRow env) m) c = []"
  by (force simp: rowsFor_def filter_empty_conv failedRow_sel keysOf_def)

lemma rowsFor_passed_absent:
  "key env c \<notin> keysOf (key env) m \<Longrightarrow> rowsFor env (map (passedRow env) m) c = []"
  by (force simp: rowsFor_def filter_empty_conv passedRow_sel keysOf_def)

lemma length_filter_key_present:
  "distinct (map f xs) \<Longrightarrow> k \<in> f ` set xs \<Longrightarrow> length (filter (\<lambda>y. f y = k) xs) = 1"
  using filter_key_distinct[of f xs] by auto

lemma rowsFor_failed_present:
  assumes "distinct (keyList (key env) m)" "key env c \<in> keysOf (key env) m"
  shows "length (rowsFor env (map (failedRow env) m) c) = 1"
proof -
  have "rowsFor env (map (failedRow env) m) c
        = map (failedRow env) (filter (\<lambda>e. key env (fst e) = key env c) m)"
    by (simp add: rowsFor_def filter_map o_def failedRow_sel)
  then show ?thesis
    using length_filter_key_present[of "\<lambda>e. key env (fst e)" m "key env c"] assms
    by (simp add: keyList_def keysOf_def)
qed

lemma rowsFor_passed_present:
  assumes "distinct (keyList (key env) m)" "key env c \<in> keysOf (key env) m"
  shows "length (rowsFor env (map (passedRow env) m) c) = 1"
proof -
  have "rowsFor env (map (passedRow env) m) c
        = map (passedRow env) (filter (\<lambda>e. key env (fst e) = key env c) m)"
    by (simp add: rowsFor_def filter_map o_def passedRow_sel)
  then show ?thesis
    using length_filter_key_present[of "\<lambda>e. key env (fst e)" m "key env c"] assms
    by (simp add: keyList_def keysOf_def)
qed

lemma rowsFor_old:
  assumes "distinct (map (key env) ccis)" "c \<in> set ccis" "isImport c"
  shows "rowsFor env (map oldRow (oldResultCCIs env f p ccis)) c =
           (if key env c \<in> keysOf (key env) f \<or> key env c \<in> keysOf (key env) p then []
            else [oldRow c])"
proof -
  have "rowsFor env (map oldRow (oldResultCCIs env f p ccis)) c
        = map oldRow (filter (\<lambda>d. \<not> (\<not> isImport d \<or> qmap_contains (key env) f d
                      \<or> qmap_contains (key env) p d)) (filter (\<lambda>d. key env d = key env c) ccis))"
    by (simp add: rowsFor_def filter_map o_def oldRow_sel oldResultCCIs_def conj_commute)
  also have "filter (\<lambda>d. key env d = key env c) ccis = [c]"
    using filter_key_distinct[OF assms(1,2)] .
  finally show ?thesis using assms(3) by (simp add: qmap_contains_keysOf)
qed

text \<open>
  Claim C10. Let the listing of the CCI table hold no key twice. Every CCI of the table that
  carries imported test results has exactly one row in the report, whatever the checks are;
  and when no Open and no NotAFinding check maps to it, that row has empty current-result
  columns and carries the imported compliance status, date, tester and results in the
  latest-test-result columns.
\<close>

theorem report_imported_once:
  assumes "distinct (map (key env) ccis)" "c \<in> set ccis" "isImport c"
  shows "length (rowsFor env (reportRows env checks ccis) c) = 1
       \<and> (\<not> (\<exists>cc \<in> set checks. key env (cciOf env cc) = key env c
                \<and> (status cc = Open \<or> status cc = NotAFinding))
          \<longrightarrow> rowsFor env (reportRows env checks ccis) c =
                [\<lparr> row_cci = c, complianceStatus = '''', dateTested = '''', testedBy = '''',
                   testResults = NoResults,
                   latestComplianceStatus = importCompliance c,
                   latestDateTested = importDateTested c,
                   latestTestedBy = importTestedBy c,
                   latestTestResults = importTestResults c \<rparr>])"
proof -
  let ?fp = "classifyChecks env checks"
  let ?kc = "key env c"
  have rows: "rowsFor env (reportRows env checks ccis) c =
      rowsFor env (map (failedRow env) (fst ?fp)) c
      @ rowsFor env (map (passedRow env) (snd ?fp)) c
      @ rowsFor env (map oldRow (oldResultCCIs env (fst ?fp) (snd ?fp) ccis)) c"
    by (simp add: reportRows_def Let_def rowsFor_append)
  have old: "rowsFor env (map oldRow (oldResultCCIs env (fst ?fp) (snd ?fp) ccis)) c =
      (if ?kc \<in> openKeys env checks \<or> ?kc \<in> nafKeys env checks - openKeys env checks then []
       else [oldRow c])"
    using rowsFor_old[OF assms, of "fst ?fp" "snd ?fp"] by (simp add: classifyChecks_keys)
  consider (failed) "?kc \<in> openKeys env checks"
    | (passed) "?kc \<notin> openKeys env checks" "?kc \<in> nafKeys env checks"
    | (neither) "?kc \<notin> openKeys env checks" "?kc \<notin> nafKeys env checks"
    by blast
  then show ?thesis
  proof cases
    case failed
    have "?kc \<in> keysOf (key env) (fst ?fp)"
      using failed by (simp add: classifyChecks_keys)
    then have "length (rowsFor env (map (failedRow env) (fst ?fp)) c) = 1"
      by (rule rowsFor_failed_present[OF classifyChecks_distinct(1)])
    moreover have "rowsFor env (map (passedRow env) (snd ?fp)) c = []"
      using rowsFor_passed_absent[of env c "snd ?fp"] failed by (simp add: classifyChecks_keys)
    ultimately have "length (rowsFor env (reportRows env checks ccis) c) = 1"
      using rows old failed by simp
    moreover have "\<exists>cc \<in> set checks. key env (cciOf env cc) = key env c
                \<and> (status cc = Open \<or> status cc = NotAFinding)"
      using failed by (auto simp: openKeys_iff)
    ultimately show ?thesis by simp
  next
    case passed
    have "rowsFor env (map (failedRow env) (fst ?fp)) c = []"
      using rowsFor_failed_absent[of env c "fst ?fp"] passed by (simp add: classifyChecks_keys)
    moreover have "?kc \<in> keysOf (key env) (snd ?fp)"
      using passed by (simp add: classifyChecks_keys)
    then have "length (rowsFor env (map (passedRow env) (snd ?fp)) c) = 1"
      by (rule rowsFor_passed_present[OF classifyChecks_distinct(2)])
    ultimately have "length (rowsFor env (reportRows env checks ccis) c) = 1"
      using rows old passed by simp
    moreover have "\<exists>cc \<in> set checks. key env (cciOf env cc) = key env c
                \<and> (status cc = Open \<or> status cc = NotAFinding)"
      using passed by (auto simp: nafKeys_iff)
    ultimately show ?thesis by simp
  next
    case neither
    have "rowsFor env (map (failedRow env) (fst ?fp)) c = []"
      using rowsFor_failed_absent[of env c "fst ?fp"] neither by (simp add: classifyChecks_keys)
    moreover have "rowsFor env (map (passedRow env) (snd ?fp)) c = []"
      using rowsFor_passed_absent[of env c "snd ?fp"] neither by (simp add: classifyChecks_keys)
    ultimately have "rowsFor env (reportRows env checks ccis) c = [oldRow c]"
      using rows old neither by simp
    then show ?thesis using assms(3) by (simp add: oldRow_def)
  qed
qed

subsection \<open>The report on example data\<close>

lemma ex_env_sel: "key ex_env = cci" "cciOf ex_env = (\<lambda>cc. if stigCheckId cc = 7 then ex_cci1 else ex_cci2)"
  by (simp_all add: ex_env_def)

theorem report_partition_witness:
  "mset [ex_check 2 7 Open, ex_check 1 7 NotAFinding] = mset [ex_check 1 7 NotAFinding, ex_check 2 7 Open]
   \<and> emittedWith ex_env (reportRows ex_env [ex_check 1 7 NotAFinding, ex_check 2 7 Open] [])
        ''Non-Compliant'' ex_cci1
   \<and> \<not> emittedWith ex_env (reportRows ex_env [ex_check 1 7 NotAFinding, ex_check 2 7 Open] [])
        ''Compliant'' ex_cci1
   \<and> emittedWith ex_env (reportRows ex_env [ex_check 2 7 Open, ex_check 1 7 NotAFinding] [])
        ''Non-Compliant'' ex_cci1"
proof -
  have h: "mset [ex_check 2 7 Open, ex_check 1 7 NotAFinding]
         = mset [ex_check 1 7 NotAFinding, ex_check 2 7 Open]"
    by simp
  show ?thesis
    using h report_partition[OF h, of ex_env "[]" ex_cci1 "''Non-Compliant''"]
    by (simp add: ex_env_sel ex_check_def)
qed

theorem report_imported_once_witness:
  "distinct (map (key ex_env) [ex_cci2, ex_cci1]) \<and> ex_cci2 \<in> set [ex_cci2, ex_cci1] \<and> isImport ex_cci2
   \<and> length (rowsFor ex_env (reportRows ex_env [ex_check 1 7 NotAFinding, ex_check 2 7 Open]
        [ex_cci2, ex_cci1]) ex_cci2) = 1
   \<and> rowsFor ex_env (reportRows ex_env [ex_check 1 7 NotAFinding, ex_check 2 7 Open]
        [ex_cci2, ex_cci1]) ex_cci2 =
       [\<lparr> row_cci = ex_cci2, complianceStatus = '''', dateTested = '''', testedBy = '''',
          testResults = NoResults, latestComplianceStatus = ''Non-Compliant'',
          latestDateTested = ''02-Jan-2020'', latestTestedBy = ''tester'',
          latestTestResults = ''bad'' \<rparr>]"
proof -
  have h1: "distinct (map (key ex_env) [ex_cci2, ex_cci1])"
    by (simp add: ex_env_sel ex_cci1_def ex_cci2_def)
  have h2: "ex_cci2 \<in> set [ex_cci2, ex_cci1]" by simp
  have h3: "isImport ex_cci2" by (simp add: ex_cci2_def)
  show ?thesis
    using h1 h2 h3
      report_imported_once[OF h1 h2 h3, of "[ex_check 1 7 NotAFinding, ex_check 2 7 Open]"]
    by (simp add: ex_env_sel ex_check_def ex_cci1_def ex_cci2_def)
qed

section \<open>Properties of the control-id parse\<close>

lemma indexFrom_absent: "ch \<notin> set xs \<Longrightarrow> indexFrom ch xs n = -1"
  by (induction xs arbitrary: n) auto

lemma indexFrom_first: "ch \<notin> set xs \<Longrightarrow> indexFrom ch (xs @ ch # ys) n = n + int (length xs)"
  by (induction xs arbitrary: n) auto

lemma indexOf_absent: "ch \<notin> set s \<Longrightarrow> indexOf s ch f = -1"
  by (auto simp: indexOf_def Let_def intro!: indexFrom_absent dest: in_set_dropD)

lemma indexOf_first: "ch \<notin> set xs \<Longrightarrow> indexOf (xs @ ch # ys) ch 0 = int (length xs)"
  by (simp add: indexOf_def indexFrom_first)

lemma indexOf_from:
  "0 \<le> f \<Longrightarrow> indexOf s ch f = indexFrom ch (drop (nat f) s) f"
  by (simp add: indexOf_def)

lemma trimmed_id:
  assumes "s \<noteq> []" "\<not> isSpace (hd s)" "\<not> isSpace (last s)"
  shows "trimmed s = s"
proof -
  have a: "dropWhile isSpace s = s" using assms(1,2) by (cases s) auto
  have "rev s \<noteq> []" "\<not> isSpace (hd (rev s))" using assms(1,3) by (simp_all add: hd_rev)
  then have b: "dropWhile isSpace (rev s) = rev s" by (cases "rev s") auto
  show ?thesis by (simp add: trimmed_def a b)
qed

lemma digitValue_range: "digitValue c = Some d \<Longrightarrow> 0 \<le> d \<and> d \<le> 9"
  by (auto simp: digitValue_def split: if_splits)

lemma foldl_digits_nonneg:
  "0 \<le> a \<Longrightarrow> 0 \<le> foldl (\<lambda>a c. 10 * a + (case digitValue c of Some d \<Rightarrow> d | None \<Rightarrow> 0)) a ds"
proof (induction ds arbitrary: a)
  case Nil
  then show ?case by simp
next
  case (Cons c ds)
  have "0 \<le> (case digitValue c of Some d \<Rightarrow> d | None \<Rightarrow> (0::int))"
    using digitValue_range[of c] by (cases "digitValue c") auto
  then have "0 \<le> 10 * a + (case digitValue c of Some d \<Rightarrow> d | None \<Rightarrow> 0)"
    using Cons.prems by simp
  then show ?case using Cons.IH by simp
qed

lemma digitsValue_nonneg: "0 \<le> digitsValue ds"
  by (simp add: digitsValue_def foldl_digits_nonneg)

lemma isDigit_chars:
  assumes "isDigit c"
  shows "\<not> isSpace c" "c \<noteq> CHR '' ''" "c \<noteq> CHR ''.''" "c \<noteq> CHR ''(''" "c \<noteq> CHR '')''"
    "c \<noteq> CHR ''-''" "c \<noteq> CHR ''+''"
  using assms by (auto simp: isDigit_def digitValue_def isSpace_def split: if_splits)

lemma isLetter_chars:
  assumes "isLetter c"
  shows "\<not> isSpace c" "c \<noteq> CHR '' ''" "c \<noteq> CHR ''.''" "c \<noteq> CHR ''(''" "c \<noteq> CHR '')''"
  using assms by (auto simp: isLetter_def isSpace_def)

lemma not_digits:
  "\<not> isDigit (CHR '' '')" "\<not> isDigit (CHR ''.'')" "\<not> isDigit (CHR ''('')" "\<not> isDigit (CHR '')'')"
  by (simp_all add: isDigit_def digitValue_def)

lemma digits_without:
  assumes "list_all isDigit ds"
  shows "CHR '' '' \<notin> set ds" "CHR ''.'' \<notin> set ds" "CHR ''('' \<notin> set ds" "CHR '')'' \<notin> set ds"
  using assms not_digits by (auto simp: list_all_iff)

lemma toInt_numeral:
  assumes "isNumeral ds"
  shows "toInt ds = digitsValue ds"
proof -
  have ne: "ds \<noteq> []" and dg: "list_all isDigit ds" and le: "digitsValue ds \<le> 2147483647"
    using assms by (simp_all add: isNumeral_def)
  have h: "isDigit (hd ds)" and l: "isDigit (last ds)"
    using ne dg by (auto simp: list_all_iff)
  have t: "trimmed ds = ds"
    using trimmed_id[OF ne] h l isDigit_chars(1) by blast
  have s: "hd ds \<noteq> CHR ''-''" "hd ds \<noteq> CHR ''+''"
    using h isDigit_chars by blast+
  show ?thesis
    using ne dg le s digitsValue_nonneg[of ds] by (simp add: toInt_def t Let_def)
qed


lemma not_letters:
  "\<not> isLetter (CHR '' '')" "\<not> isLetter (CHR ''.'')" "\<not> isLetter (CHR ''('')" "\<not> isLetter (CHR '')'')"
  by (simp_all add: isLetter_def)

lemma left_append: "ys \<noteq> [] \<Longrightarrow> left (xs @ ys) (int (length xs)) = xs"
  by (simp add: left_def)

lemma right_append: "xs \<noteq> [] \<Longrightarrow> right (xs @ ys) (int (length ys)) = ys"
  by (simp add: right_def)

lemma index_none:
  assumes "list_all isLetter fam" "list_all isDigit ds"
  shows "CHR '' '' \<notin> set (fam @ CHR ''-'' # ds)" "CHR ''.'' \<notin> set (fam @ CHR ''-'' # ds)"
    "CHR ''('' \<notin> set (fam @ CHR ''-'' # ds)" "CHR '')'' \<notin> set (fam @ CHR ''-'' # ds)"
  using assms(1) not_letters digits_without[OF assms(2)] by (auto simp: list_all_iff)

lemma GetControl_parts_plain:
  assumes "length fam = 2" "list_all isLetter fam" "isNumeral ds"
  shows "GetControl_parts (fam @ CHR ''-'' # ds) = (fam, digitsValue ds, -1)"
proof -
  let ?s = "fam @ CHR ''-'' # ds"
  have dg: "list_all isDigit ds" and ne: "ds \<noteq> []" using assms(3) by (simp_all add: isNumeral_def)
  have hl: "\<not> isSpace (hd ?s)" "\<not> isSpace (last ?s)"
    using assms(1,2) dg ne isLetter_chars(1) isDigit_chars(1)
    by (cases fam; auto simp: list_all_iff)+
  have t: "trimmed ?s = ?s" using trimmed_id[of ?s] hl by simp
  have sp: "indexOf ?s (CHR '' '') 0 = -1"
    using index_none(1)[OF assms(2) dg] by (rule indexOf_absent)
  have c1: "controlSecondSpace ?s = ?s" by (simp add: controlSecondSpace_def t sp)
  have fam: "left ?s 2 = fam" using assms(1) by (simp add: left_def)
  have "right ((fam @ [CHR ''-'']) @ ds) (int (length ds)) = ds" by (rule right_append) simp
  then have num: "right ?s (int (length ?s) - 3) = ds" using assms(1) by simp
  have np: "\<not> contains ds (CHR ''('')" using digits_without(3)[OF dg] by (simp add: contains_def)
  show ?thesis
    unfolding GetControl_parts_def c1 Let_def fam num using np toInt_numeral[OF assms(3)] by simp
qed

lemma GetControl_parts_enh:
  assumes "length fam = 2" "list_all isLetter fam" "isNumeral ds" "isNumeral es"
  shows "GetControl_parts (fam @ CHR ''-'' # ds @ CHR ''('' # es @ [CHR '')''])
         = (fam, digitsValue ds, digitsValue es)"
proof -
  let ?s = "fam @ CHR ''-'' # ds @ CHR ''('' # es @ [CHR '')'']"
  let ?c = "ds @ CHR ''('' # es @ [CHR '')'']"
  have dg: "list_all isDigit ds" and ne: "ds \<noteq> []" using assms(3) by (simp_all add: isNumeral_def)
  have eg: "list_all isDigit es" using assms(4) by (simp add: isNumeral_def)
  have hl: "\<not> isSpace (hd ?s)" "\<not> isSpace (last ?s)"
    using assms(1,2) isLetter_chars(1)
    by (cases fam; auto simp: list_all_iff isSpace_def)+
  have t: "trimmed ?s = ?s" using trimmed_id[of ?s] hl by simp
  have "CHR '' '' \<notin> set ?s"
    using assms(2) isLetter_chars(2) digits_without(1)[OF dg] digits_without(1)[OF eg]
    unfolding list_all_iff by auto
  then have sp: "indexOf ?s (CHR '' '') 0 = -1" by (rule indexOf_absent)
  have c1: "controlSecondSpace ?s = ?s" by (simp add: controlSecondSpace_def t sp)
  have fam: "left ?s 2 = fam" using assms(1) by (simp add: left_def)
  have "right ((fam @ [CHR ''-'']) @ ?c) (int (length ?c)) = ?c" by (rule right_append) simp
  moreover have "int (length ?s) - 3 = int (length ?c)" using assms(1) by simp
  ultimately have num: "right ?s (int (length ?s) - 3) = ?c" by simp
  have cp: "contains ?c (CHR ''('')" by (simp add: contains_def)
  have ip: "indexOf ?c (CHR ''('') 0 = int (length ds)"
    using indexOf_first[OF digits_without(3)[OF dg]] by simp
  have "right ((ds @ [CHR ''('']) @ es @ [CHR '')'']) (int (length (es @ [CHR '')'']))) = es @ [CHR '')'']"
    by (rule right_append) simp
  moreover have "int (length ?c) - int (length ds) - 1 = int (length (es @ [CHR '')'']))" by simp
  ultimately have e0: "right ?c (int (length ?c) - int (length ds) - 1) = es @ [CHR '')'']"
    by simp
  have "left (es @ [CHR '')'']) (int (length es)) = es" by (rule left_append) simp
  then have e1: "left (es @ [CHR '')'']) (int (length (es @ [CHR '')''])) - 1) = es"
    by simp
  have c3: "left ?c (int (length ds)) = ds" by (rule left_append) simp
  show ?thesis
    unfolding GetControl_parts_def c1 Let_def fam num ip e0 e1 c3
    using cp toInt_numeral[OF assms(3)] toInt_numeral[OF assms(4)] by simp
qed

lemma referenceControl_plain:
  assumes "list_all isLetter fam" "isNumeral ds"
  shows "referenceControl (fam @ CHR ''-'' # ds) = Some (fam @ CHR ''-'' # ds)"
proof -
  have dg: "list_all isDigit ds" using assms(2) by (simp add: isNumeral_def)
  show ?thesis
    using index_none[OF assms(1) dg]
    by (simp add: referenceControl_def Let_def contains_def del: set_append)
qed

lemma referenceControl_shape:
  assumes idx: "index = p @ CHR '' '' # CHR ''('' # es @ [CHR '')'']"
    and p: "CHR '' '' \<notin> set p" "CHR ''.'' \<notin> set p" "CHR ''('' \<notin> set p" "CHR '')'' \<notin> set p"
    and e: "CHR '' '' \<notin> set es" "CHR '')'' \<notin> set es"
  shows "referenceControl index = Some (p @ CHR ''('' # es @ [CHR '')''])"
proof -
  have cs: "contains index (CHR '' '')" "contains index (CHR ''('')"
    by (simp_all add: contains_def idx)
  have i1: "indexOf index (CHR '' '') 0 = int (length p)"
    unfolding idx using indexOf_first[OF p(1)] by simp
  have l1: "left index (int (length p)) = p" unfolding idx by (rule left_append) simp
  have nd: "\<not> contains p (CHR ''.'')" using p(2) by (simp add: contains_def)
  have "CHR '' '' \<notin> set (CHR ''('' # es @ [CHR '')''])" using e(1) by simp
  then have "indexFrom (CHR '' '') (CHR ''('' # es @ [CHR '')'']) (int (length p) + 1) = -1"
    by (rule indexFrom_absent)
  then have i2: "indexOf index (CHR '' '') (int (length p) + 1) = -1"
    by (simp add: indexOf_from nat_add_distrib idx)
  have "CHR ''('' \<notin> set (p @ [CHR '' ''])" using p(3) by simp
  from indexOf_first[OF this, of "es @ [CHR '')'']"]
  have i3: "indexOf index (CHR ''('') 0 = int (length p) + 1" by (simp add: idx)
  have "CHR '')'' \<notin> set (p @ CHR '' '' # CHR ''('' # es)" using p(4) e(2) by simp
  from indexOf_first[OF this, of "[]"]
  have i4: "indexOf index (CHR '')'') 0 = int (length p) + 2 + int (length es)" by (simp add: idx)
  have sr: "stringRef index (int (length p) + 1) (int (length es) + 2) = Some (CHR ''('' # es @ [CHR '')''])"
    by (simp add: stringRef_def nat_add_distrib idx)
  have len: "int (length p) + 2 + int (length es) - (int (length p) + 1) + 1 = int (length es) + 2"
    by simp
  show ?thesis
    unfolding referenceControl_def Let_def i1 l1 i2 i3 i4 len sr
    using cs nd by simp
qed

lemma referenceControl_enh:
  assumes "list_all isLetter fam" "isNumeral ds" "isNumeral es"
  shows "referenceControl (fam @ CHR ''-'' # ds @ CHR '' '' # CHR ''('' # es @ [CHR '')''])
         = Some (fam @ CHR ''-'' # ds @ CHR ''('' # es @ [CHR '')''])"
proof -
  have dg: "list_all isDigit ds" using assms(2) by (simp add: isNumeral_def)
  have eg: "list_all isDigit es" using assms(3) by (simp add: isNumeral_def)
  have "referenceControl (fam @ CHR ''-'' # ds @ CHR '' '' # CHR ''('' # es @ [CHR '')''])
        = Some ((fam @ CHR ''-'' # ds) @ CHR ''('' # es @ [CHR '')''])"
    by (rule referenceControl_shape[OF _ index_none[OF assms(1) dg]
          digits_without(1)[OF eg] digits_without(4)[OF eg]]) simp
  then show ?thesis by simp
qed

text \<open>
  Claim C2, as amended. For every index made of a family of exactly two letters, a hyphen,
  a decimal number that fits a 32-bit \<open>int\<close> and, optionally, a space and a parenthesised
  decimal number that fits a 32-bit \<open>int\<close>, the parse of the CCI import gives that family,
  the value of the number and the value of the enhancement (-1 when there is none).
\<close>

theorem control_id_parse:
  assumes "length fam = 2" "list_all isLetter fam" "isNumeral ds"
    and "case enh of None \<Rightarrow> True | Some es \<Rightarrow> isNumeral es"
  shows "parseControlId (controlIdText fam ds enh) =
           Some (fam, digitsValue ds, case enh of None \<Rightarrow> -1 | Some es \<Rightarrow> digitsValue es)"
proof (cases enh)
  case None
  then show ?thesis
    using referenceControl_plain[OF assms(2,3)] GetControl_parts_plain[OF assms(1,2,3)]
    by (simp add: parseControlId_def controlIdText_def)
next
  case (Some es)
  then have "isNumeral es" using assms(4) by simp
  then show ?thesis
    using Some referenceControl_enh[OF assms(2,3)] GetControl_parts_enh[OF assms(1,2,3)]
    by (simp add: parseControlId_def controlIdText_def)
qed

theorem control_id_parse_witness:
  "length ''AC'' = 2 \<and> list_all isLetter ''AC'' \<and> isNumeral ''2'' \<and> isNumeral ''1''
   \<and> parseControlId ''AC-2 (1)'' = Some (''AC'', 2, 1)"
proof -
  have h1: "length ''AC'' = 2" by simp
  have h2: "list_all isLetter ''AC''" by (simp add: isLetter_def)
  have h3: "isNumeral ''2''" by (simp add: isNumeral_def isDigit_def digitValue_def digitsValue_def)
  have h4: "case Some ''1'' of None \<Rightarrow> True | Some es \<Rightarrow> isNumeral es"
    by (simp add: isNumeral_def isDigit_def digitValue_def digitsValue_def)
  show ?thesis
    using h1 h2 h3 h4 control_id_parse[OF h1 h2 h3 h4]
    by (simp add: controlIdText_def digitValue_def digitsValue_def)
qed

text \<open>
  The claim as stated speaks of family letters and a number without bounds. A family of
  three letters is cut to its first two characters, and the third slides into the number:
  "ABC-2 (1)" gives family "AB" and number -2.
\<close>

theorem control_id_parse_counterexample:
  "parseControlId (controlIdText ''ABC'' ''2'' (Some ''1'')) = Some (''AB'', - 2, 1)
   \<and> parseControlId (controlIdText ''ABC'' ''2'' (Some ''1'')) \<noteq> Some (''ABC'', 2, 1)"
  by (simp add: parseControlId_def referenceControl_def GetControl_parts_def controlSecondSpace_def
      controlIdText_def indexOf_def contains_def left_def right_def stringRef_def trimmed_def
      isSpace_def toInt_def digitsValue_def digitValue_def isDigit_def Let_def)


section \<open>Properties of the data layer\<close>

lemma sort_key_first:
  assumes "x \<in> set xs"
  shows "\<exists>y ys. sort_key f xs = y # ys \<and> y \<in> set xs"
proof -
  have "length (sort_key f xs) = length xs" by (rule length_sort)
  moreover have "0 < length xs" using assms by (rule length_pos_if_in_set)
  ultimately obtain y ys where e: "sort_key f xs = y # ys"
    by (cases "sort_key f xs") auto
  have "set (y # ys) = set xs" unfolding e[symmetric] by (rule set_sort)
  then have "y \<in> set xs" by auto
  then show ?thesis using e by blast
qed

lemma sort_key_pos: "x \<in> set xs \<Longrightarrow> 0 < length (sort_key f xs)"
  using length_pos_if_in_set[of x xs] by (simp only: length_sort)

lemma GetAssets_first:
  assumes "isOpen d" "a \<in> set (Asset_tbl d)" "P a"
  shows "\<exists>y ys. GetAssets d P = y # ys \<and> y \<in> set (Asset_tbl d) \<and> P y"
proof -
  have "a \<in> set (filter P (Asset_tbl d))" using assms by simp
  from sort_key_first[OF this, of "\<lambda>a. (LOWER (hostName a), hostName a)"]
  obtain y ys where e: "sort_key (\<lambda>a. (LOWER (hostName a), hostName a)) (filter P (Asset_tbl d)) = y # ys"
    and y: "y \<in> set (filter P (Asset_tbl d))" by blast
  have "GetAssets d P = y # ys" using assms(1) e by (simp add: GetAssets_def)
  then show ?thesis using y by simp
qed

lemma GetSTIGs_first:
  assumes "isOpen d" "s \<in> set (STIG_tbl d)" "P s"
  shows "\<exists>y ys. GetSTIGs d P = y # ys \<and> y \<in> set (STIG_tbl d) \<and> P y"
proof -
  have "s \<in> set (filter P (STIG_tbl d))" using assms by simp
  from sort_key_first[OF this, of "\<lambda>s. (LOWER (stig_title s), stig_title s)"]
  obtain y ys where e: "sort_key (\<lambda>s. (LOWER (stig_title s), stig_title s)) (filter P (STIG_tbl d)) = y # ys"
    and y: "y \<in> set (filter P (STIG_tbl d))" by blast
  have "GetSTIGs d P = y # ys" using assms(1) e by (simp add: GetSTIGs_def)
  then show ?thesis using y by simp
qed

lemma GetAsset_id_found:
  assumes "isOpen d" "a \<in> set (Asset_tbl d)"
  shows "\<exists>y. GetAsset_id d (asset_id a) = (y, []) \<and> y \<in> set (Asset_tbl d) \<and> asset_id y = asset_id a"
  using GetAssets_first[OF assms, of "\<lambda>x. asset_id x = asset_id a"]
  by (auto simp: GetAsset_id_def)

lemma GetSTIG_id_found:
  assumes "isOpen d" "s \<in> set (STIG_tbl d)"
  shows "\<exists>y. GetSTIG_id d (stig_id s) = (y, []) \<and> y \<in> set (STIG_tbl d) \<and> stig_id y = stig_id s"
  using GetSTIGs_first[OF assms, of "\<lambda>x. stig_id x = stig_id s"]
  by (auto simp: GetSTIG_id_def)



lemma GetSTIGs_Asset_nonempty:
  assumes "isOpen d" "l \<in> set (AssetSTIG_tbl d)" "AssetId l = asset_id asset"
    "s \<in> set (STIG_tbl d)" "stig_id s = STIGId l"
  shows "length (GetSTIGs_Asset d asset) > 0"
proof -
  have "stig_id s \<in> set (map STIGId (filter (\<lambda>l. AssetId l = asset_id asset) (AssetSTIG_tbl d)))"
    using assms(2,3,5) by force
  from GetSTIGs_first[OF assms(1,4), of "\<lambda>s. stig_id s \<in> set (map STIGId
                   (filter (\<lambda>l. AssetId l = asset_id asset) (AssetSTIG_tbl d)))", OF this]
  obtain y ys where "GetSTIGs_Asset d asset = y # ys"
    unfolding GetSTIGs_Asset_def by blast
  then show ?thesis by simp
qed

text \<open>
  Claim C4. On an open database, deleting an Asset that has an AssetSTIG row naming a STIG
  of the STIG table fails: the call returns false, raises the warning "Asset Has Mapped
  STIGs" and leaves the database as it was. The same holds for the overload that takes the
  id of an Asset of the table.
\<close>

theorem DeleteAsset_with_STIGs:
  assumes "isOpen d" "l \<in> set (AssetSTIG_tbl d)" "AssetId l = asset_id asset"
    "s \<in> set (STIG_tbl d)" "stig_id s = STIGId l"
  shows "DeleteAsset d asset = (False, [Warning ''Asset Has Mapped STIGs''], d)
       \<and> (asset \<in> set (Asset_tbl d) \<longrightarrow>
            DeleteAsset_id d (asset_id asset) = (False, [Warning ''Asset Has Mapped STIGs''], d))"
proof -
  have a: "\<And>x. asset_id x = asset_id asset \<Longrightarrow>
             DeleteAsset d x = (False, [Warning ''Asset Has Mapped STIGs''], d)"
    using GetSTIGs_Asset_nonempty[OF assms(1,2) _ assms(4,5)] assms(3)
    by (simp add: DeleteAsset_def)
  have "DeleteAsset_id d (asset_id asset) = (False, [Warning ''Asset Has Mapped STIGs''], d)"
    if mem: "asset \<in> set (Asset_tbl d)"
  proof -
    obtain y where y: "GetAsset_id d (asset_id asset) = (y, [])" "asset_id y = asset_id asset"
      using GetAsset_id_found[OF assms(1) mem] by blast
    show ?thesis using a[OF y(2)] by (simp add: DeleteAsset_id_def y(1))
  qed
  then show ?thesis using a[of asset] by simp
qed

lemma GetAssets_STIG_nonempty:
  assumes "isOpen d" "s \<in> set (STIG_tbl d)" "l \<in> set (AssetSTIG_tbl d)" "STIGId l = stig_id s"
    "a \<in> set (Asset_tbl d)" "asset_id a = AssetId l" "stig_id y = stig_id s"
  shows "length (GetAssets_STIG d y) > 0"
proof -
  let ?xs = "[a. a \<leftarrow> Asset_tbl d, l \<leftarrow> AssetSTIG_tbl d, AssetId l = asset_id a,
                 s \<leftarrow> STIG_tbl d, stig_id s = STIGId l, stig_id s = stig_id y]"
  have "a \<in> set ?xs" using assms(2-7) by auto
  then have "0 < length (sort_key (\<lambda>a. (LOWER (hostName a), hostName a)) ?xs)"
    by (rule sort_key_pos)
  moreover have "GetAssets_STIG d y = sort_key (\<lambda>a. (LOWER (hostName a), hostName a)) ?xs"
    using assms(1) by (simp only: GetAssets_STIG_def if_True)
  ultimately show ?thesis by (simp only:)
qed

text \<open>
  Claim C5. On an open database, deleting a STIG of the table that an AssetSTIG row of an
  Asset of the table names fails: \<open>DeleteSTIG\<close> returns false, raises the warning "STIG In
  Use" and leaves the database as it was; so do the overload on the STIG object and
  \<open>STIGQter::DeleteSTIGs\<close> on that selection.
\<close>

theorem DeleteSTIG_in_use:
  assumes "isOpen d" "s \<in> set (STIG_tbl d)" "l \<in> set (AssetSTIG_tbl d)" "STIGId l = stig_id s"
    "a \<in> set (Asset_tbl d)" "asset_id a = AssetId l"
  shows "DeleteSTIG d (stig_id s) = (False, [Warning ''STIG In Use''], d)
       \<and> DeleteSTIG_STIG d s = (False, [Warning ''STIG In Use''], d)
       \<and> DeleteSTIGs d [s] = ([False], [Warning ''STIG In Use''], d)"
proof -
  obtain y where y: "GetSTIG_id d (stig_id s) = (y, [])" "stig_id y = stig_id s"
    using GetSTIG_id_found[OF assms(1,2)] by blast
  have "length (GetAssets_STIG d y) > 0"
    by (rule GetAssets_STIG_nonempty[OF assms y(2)])
  then have "DeleteSTIG d (stig_id s) = (False, [Warning ''STIG In Use''], d)"
    using assms(1) by (simp add: DeleteSTIG_def y(1))
  then show ?thesis by (simp add: DeleteSTIG_STIG_def)
qed








subsection \<open>The data layer on the example database\<close>


lemma ex_db_sel:
  "isOpen ex_db" "Asset_tbl ex_db = [ex_asset]" "STIG_tbl ex_db = [ex_stig]"
  "AssetSTIG_tbl ex_db = [\<lparr> link_id = 1, AssetId = 1, STIGId = 1 \<rparr>]"
  by (simp_all add: ex_db_def ex_db0_def)

theorem DeleteAsset_with_STIGs_witness:
  "isOpen ex_db \<and> \<lparr> link_id = 1, AssetId = 1, STIGId = 1 \<rparr> \<in> set (AssetSTIG_tbl ex_db)
   \<and> ex_stig \<in> set (STIG_tbl ex_db) \<and> ex_asset \<in> set (Asset_tbl ex_db)
   \<and> DeleteAsset ex_db ex_asset = (False, [Warning ''Asset Has Mapped STIGs''], ex_db)
   \<and> DeleteAsset_id ex_db 1 = (False, [Warning ''Asset Has Mapped STIGs''], ex_db)"
proof -
  have h1: "isOpen ex_db" by (simp add: ex_db_sel)
  have h2: "\<lparr> link_id = 1, AssetId = 1, STIGId = 1 \<rparr> \<in> set (AssetSTIG_tbl ex_db)"
    by (simp add: ex_db_sel)
  have h3: "AssetId \<lparr> link_id = 1, AssetId = 1, STIGId = 1 \<rparr> = asset_id ex_asset"
    by (simp add: ex_asset_def)
  have h4: "ex_stig \<in> set (STIG_tbl ex_db)" by (simp add: ex_db_sel)
  have h5: "stig_id ex_stig = STIGId \<lparr> link_id = 1, AssetId = 1, STIGId = 1 \<rparr>"
    by (simp add: ex_stig_def)
  have h6: "ex_asset \<in> set (Asset_tbl ex_db)" by (simp add: ex_db_sel)
  have i: "asset_id ex_asset = 1" by (simp add: ex_asset_def)
  show ?thesis
    using h1 h2 h4 h6 DeleteAsset_with_STIGs[OF h1 h2 h3 h4 h5] by (simp add: i)
qed

theorem DeleteSTIG_in_use_witness:
  "isOpen ex_db \<and> ex_stig \<in> set (STIG_tbl ex_db)
   \<and> \<lparr> link_id = 1, AssetId = 1, STIGId = 1 \<rparr> \<in> set (AssetSTIG_tbl ex_db)
   \<and> ex_asset \<in> set (Asset_tbl ex_db)
   \<and> DeleteSTIG ex_db 1 = (False, [Warning ''STIG In Use''], ex_db)
   \<and> DeleteSTIGs ex_db [ex_stig] = ([False], [Warning ''STIG In Use''], ex_db)"
proof -
  have h1: "isOpen ex_db" by (simp add: ex_db_sel)
  have h2: "ex_stig \<in> set (STIG_tbl ex_db)" by (simp add: ex_db_sel)
  have h3: "\<lparr> link_id = 1, AssetId = 1, STIGId = 1 \<rparr> \<in> set (AssetSTIG_tbl ex_db)"
    by (simp add: ex_db_sel)
  have h4: "STIGId \<lparr> link_id = 1, AssetId = 1, STIGId = 1 \<rparr> = stig_id ex_stig"
    by (simp add: ex_stig_def)
  have h5: "ex_asset \<in> set (Asset_tbl ex_db)" by (simp add: ex_db_sel)
  have h6: "asset_id ex_asset = AssetId \<lparr> link_id = 1, AssetId = 1, STIGId = 1 \<rparr>"
    by (simp add: ex_asset_def)
  have i: "stig_id ex_stig = 1" by (simp add: ex_stig_def)
  show ?thesis
    using h1 h2 h3 h5 DeleteSTIG_in_use[OF h1 h2 h3 h4 h5 h6] by (simp add: i)
qed






section \<open>Properties of the CCI import\<close>







subsection \<open>The example documents\<close>

lemma ex_item_tokens:
  "ex_item =
     [StartElement ''cci_item'' [(''id'', ''CCI-000015'')],
      StartElement ''status'' [], Characters ''draft'', EndElement ''status'',
      StartElement ''definition'' [], Characters ''The organization '',
      Characters ''manages accounts.'', EndElement ''definition'',
      StartElement ''references'' [],
      StartElement ''reference'' [(''creator'', ''NIST''), (''version'', ''3''), (''index'', ''AC-2 (1)'')],
      EndElement ''reference'',
      StartElement ''reference'' [(''creator'', ''NIST''), (''version'', ''4''), (''index'', ''AC-2 (1)'')],
      EndElement ''reference'',
      EndElement ''references'', EndElement ''cci_item'']"
  by (simp add: ex_item_def ex_body_def itemTokens_def)

lemma ex_item2_tokens:
  "ex_item2 =
     [StartElement ''cci_item'' [(''id'', ''CCI-000366'')],
      StartElement ''definition'' [], Characters ''The organization implements the settings.'',
      EndElement ''definition'',
      StartElement ''reference'' [(''version'', ''4''), (''index'', ''AC-2'')],
      EndElement ''reference'',
      EndElement ''cci_item'']"
  by (simp add: ex_item2_def itemTokens_def)

lemma ex_numbers:
  "toInt (right ''CCI-000015'' 6) = 15" "toInt (right ''CCI-000366'' 6) = 366"
  by code_simp+

lemma ex_controls:
  "referenceControl ''AC-2 (1)'' = Some ''AC-2(1)''" "referenceControl ''AC-2'' = Some ''AC-2''"
  by code_simp+

lemma ex_endsWith:
  "endsWith ''AUFamilyLink'' ''FamilyLink''" "endsWith ''CMFamilyLink'' ''FamilyLink''"
  by (simp_all add: endsWith_def)

lemmas ex_page_simps =
  ex_page_head_def ex_page_tail_def ex_link_def readFamilies_def hasAttribute_def idAndHref_def
  ex_endsWith familyLink_def Let_def

lemmas ex_import_simps =
  ex_item_tokens ex_item2_tokens ex_state_def parseFile_def cciItemElement_def hasAttribute_def
  attributeValue_def referenceElement_def versionAndIndex_def ex_numbers ex_controls


subsection \<open>Parse errors\<close>

lemma readElementText_cut:
  assumes "readElementText acc (pre @ Invalid # post) = (t1, r1, e1)"
    and "readElementText acc pre = (t2, r2, e2)"
  shows "t1 = t2 \<and> e1 = e2 \<and> (\<not> e1 \<longrightarrow> r1 = r2 @ Invalid # post)"
  using assms
  by (induction acc pre arbitrary: t1 r1 e1 t2 r2 e2 rule: readElementText.induct) auto

lemma parseCCIs_cut: "parseCCIs d st (pre @ Invalid # post) = parseCCIs d st pre"
proof (induction d st pre rule: parseCCIs.induct)
  case (1 d st)
  then show ?case by simp
next
  case (2 d st ts)
  then show ?case by simp
next
  case (3 d st n attrs ts)
  show ?case
  proof (cases "n = ''cci_item''")
    case True
    then show ?thesis using 3(1) by simp
  next
    case nc: False
    show ?thesis
    proof (cases "n = ''definition''")
      case True
      obtain t1 r1 e1 where a: "readElementText [] (ts @ Invalid # post) = (t1, r1, e1)"
        by (cases "readElementText [] (ts @ Invalid # post)") auto
      obtain t2 r2 e2 where b: "readElementText [] ts = (t2, r2, e2)"
        by (cases "readElementText [] ts") auto
      have c: "t1 = t2" "e1 = e2" "\<not> e1 \<Longrightarrow> r1 = r2 @ Invalid # post"
        using readElementText_cut[OF a b] by auto
      show ?thesis
      proof (cases e2)
        case True
        then show ?thesis using nc \<open>n = ''definition''\<close> a b c by simp
      next
        case False
        have "parseCCIs d (st\<lparr>st_definition := t2\<rparr>) (r2 @ Invalid # post)
              = parseCCIs d (st\<lparr>st_definition := t2\<rparr>) r2"
          using 3(2)[OF nc \<open>n = ''definition''\<close> b[symmetric] _ False] by simp
        then show ?thesis using nc \<open>n = ''definition''\<close> a b c False by simp
      qed
    next
      case nd: False
      show ?thesis
      proof (cases "n = ''reference''")
        case True
        show ?thesis
        proof (cases "referenceElement d st attrs")
          case None
          then show ?thesis using nc nd True by simp
        next
          case (Some st')
          then show ?thesis using nc nd True 3(3)[OF nc nd True Some] by simp
        qed
      next
        case False
        then show ?thesis using nc nd 3(4) by simp
      qed
    qed
  qed
next
  case (4 d st n ts)
  then show ?case by simp
next
  case (5 d st s ts)
  then show ?case by simp
next
  case (6 d st ts)
  then show ?case by simp
qed

lemma parseFile_cut: "parseFile d acc (pre @ Invalid # post) = parseFile d acc pre"
  by (simp add: parseFile_def parseCCIs_cut)

lemma parseFiles_cut:
  "parseFiles d acc (fs1 @ (pre @ Invalid # post) # fs2) = parseFiles d acc (fs1 @ pre # fs2)"
  by (induction fs1 arbitrary: acc) (auto simp: parseFile_cut split: option.splits)

lemma parseFamilies_cut:
  "parseFamilies S fam (pre @ Invalid # post) = parseFamilies S fam pre"
proof (induction S fam pre rule: parseFamilies.induct)
  case (3 S st n attrs ts)
  let ?link = "n = ''a'' \<and> hasAttribute attrs ''id'' \<and> hasAttribute attrs ''href''
         \<and> endsWith (fst (idAndHref attrs)) ''FamilyLink''"
  show ?case
  proof (cases ?link)
    case True
    obtain t1 r1 e1 where a: "readElementText [] (ts @ Invalid # post) = (t1, r1, e1)"
      by (cases "readElementText [] (ts @ Invalid # post)") auto
    obtain t2 r2 e2 where b: "readElementText [] ts = (t2, r2, e2)"
      by (cases "readElementText [] ts") auto
    have c: "t1 = t2" "e1 = e2" "\<not> e1 \<Longrightarrow> r1 = r2 @ Invalid # post"
      using readElementText_cut[OF a b] by auto
    show ?thesis
    proof (cases e2)
      case e: True
      then show ?thesis using True a b c by simp
    next
      case e: False
      let ?st = "familyLink S st (snd (idAndHref attrs)) t2"
      have "parseFamilies S ?st (r2 @ Invalid # post) = parseFamilies S ?st r2"
        using "3.IH"(1)[OF True b[symmetric] _ e] by simp
      then show ?thesis using True a b c e by simp
    qed
  next
    case False
    then show ?thesis using "3.IH"(2) by auto
  qed
qed simp_all

text \<open>
  Claim C8. A parse error in a document of the CCI list ends the reading of that document
  at the error: the document gives what its part before the error gives, so the elements
  read before the error are kept and nothing after the error is read. The other documents
  are read in full whatever their place in the archive, and the import goes on to add the
  CCIs collected: it is the import of the archive in which the document is cut at the error.
  The page of the families is read the same way: a parse error in it ends the reading of the
  page, and the families and links found before the error are kept.
\<close>

theorem parse_error_ends_document:
  "parseCCIs d st (pre @ Invalid # post) = parseCCIs d st pre
   \<and> parseFiles d acc (fs1 @ (pre @ Invalid # post) # fs2) = parseFiles d acc (fs1 @ pre # fs2)
   \<and> importCCIs d (fs1 @ (pre @ Invalid # post) # fs2) = importCCIs d (fs1 @ pre # fs2)
   \<and> parseFamilies S fam (pre @ Invalid # post) = parseFamilies S fam pre
   \<and> readFamilies S d (pre @ Invalid # post) = readFamilies S d pre"
  by (simp add: parseCCIs_cut parseFiles_cut importCCIs_def parseFamilies_cut readFamilies_def)

theorem parse_error_ends_document_witness:
  "map_option (map cci) (parseFiles ex_db0 [] [ex_item @ Invalid # ex_item2, ex_item2])
     = Some [15, 366]"
proof -
  have "parseFiles ex_db0 [] ([] @ (ex_item @ Invalid # ex_item2) # [ex_item2])
        = parseFiles ex_db0 [] ([] @ ex_item # [ex_item2])"
    using parse_error_ends_document[of ex_db0 ex_state ex_item ex_item2 "[]" "[]" "[ex_item2]"]
    by blast
  moreover have "map_option (map cci) (parseFiles ex_db0 [] [ex_item, ex_item2]) = Some [15, 366]"
    by (simp add: ex_import_simps)
  ultimately show ?thesis by simp
qed

text \<open>
  The second family link of the page and the second \<open>cci_item\<close> of the document are well
  formed and stand after the error: they are not imported, although they are when the error
  is taken out.
\<close>

theorem parse_error_skips_rest_counterexample:
  "todo (readFamilies (\<lambda>x. x) ex_db0 (ex_page_head @ Invalid # ex_page_tail))
     = [''/800-53/Rev4/family/AU'']
   \<and> todo (readFamilies (\<lambda>x. x) ex_db0 (ex_page_head @ ex_page_tail))
     = [''/800-53/Rev4/family/AU'', ''/800-53/Rev4/family/CM'']
   \<and> map_option (map cci \<circ> toAdd) (parseCCIs ex_db0 ex_state (ex_item @ Invalid # ex_item2))
     = Some [15]
   \<and> map_option (map cci \<circ> toAdd) (parseCCIs ex_db0 ex_state (ex_item @ ex_item2))
     = Some [15, 366]"
  by (simp add: ex_import_simps ex_page_simps)

end
